theory Spec2Isabelle
  imports Main "HOL-Library.Word"
begin

section \<open>Status values and outcomes\<close>

text \<open>
  The error codes of \<^verbatim>\<open>tsl::error::Code\<close> that \<^verbatim>\<open>get_compiler_ir.cc\<close> produces itself
  (\<^verbatim>\<open>errors::InvalidArgument\<close>, \<^verbatim>\<open>errors::Internal\<close>), the one the spec names for the
  resolver (\<^verbatim>\<open>NotFound\<close>), and one for every other code a collaborator may report.
\<close>

datatype error_code = INVALID_ARGUMENT | INTERNAL | NOT_FOUND | OTHER_CODE nat

text \<open>
  The message of a status: a text written out in \<^verbatim>\<open>get_compiler_ir.cc\<close> or reported by a
  collaborator, or the text that \<^verbatim>\<open>TF_RET_CHECK\<close> builds for a failed condition. The macro
  is not among the sources and the text it builds is not modelled: \<open>RetCheckText cond\<close>
  stands for it, whatever it is, and no statement depends on it.
\<close>

datatype status_message = Text string | RetCheckText string

text \<open>A status that is not OK: its code and its message.\<close>

datatype Status = Status (code: error_code) (message: status_message)

text \<open>
  What C++ leaves undefined: dereferencing a null pointer, and indexing a container outside
  the storage it owns.
\<close>

datatype fault = NullDereference | OutOfRange

text \<open>
  The outcome of a \<^verbatim>\<open>StatusOr<T>\<close> function: a value, a non-OK status, or a fault after
  which the C++ program has no defined behaviour.
\<close>

datatype 'a outcome = Ok 'a | Error Status | Undefined fault

text \<open>
  Modelled from the spec: the macro \<^verbatim>\<open>TF_RET_CHECK\<close> (\<^verbatim>\<open>xla/status_macros.h\<close>) is not
  among the sources. The spec gives the code of its status where \<^verbatim>\<open>BuildExecutable\<close> uses
  it on \<^verbatim>\<open>executables.size() == 1\<close>: "Fails with Internal if the compiler returns a number
  of executables other than exactly one". Only this code is taken from the spec.
\<close>

definition RET_CHECK_failure :: "string \<Rightarrow> Status" where
  "RET_CHECK_failure cond = Status INTERNAL (RetCheckText cond)"

section \<open>Function definitions and their argument annotations\<close>

text \<open>\<^verbatim>\<open>DataType\<close> is a protobuf enum; a value is its number (\<^verbatim>\<open>DT_FLOAT = 1\<close>).\<close>

type_synonym DataType = nat

text \<open>\<^verbatim>\<open>OpDef::ArgDef\<close>: the fields the builder reads.\<close>

record ArgDef =
  arg_name :: string
  arg_type :: DataType

text \<open>
  \<^verbatim>\<open>AttrValue\<close> is a oneof. \<^verbatim>\<open>list()\<close> returns the list when the value is one and the
  empty default instance otherwise; \<^verbatim>\<open>'p\<close> stands for \<^verbatim>\<open>TensorShapeProto\<close>.
\<close>

datatype 'p AttrValue = ListValue "'p list" | OtherValue

fun list_shape :: "'p AttrValue \<Rightarrow> 'p list" where
  "list_shape (ListValue ps) = ps"
| "list_shape OtherValue = []"

text \<open>
  A protobuf map is iterated in an order the library does not fix: it is an association list
  whose order is the order of iteration. Its keys are distinct (\<open>wf_FunctionDef\<close>).
  \<^verbatim>\<open>FunctionDef.arg_attr\<close> is a \<^verbatim>\<open>map<uint32, ArgAttrs>\<close>, \<^verbatim>\<open>ArgAttrs.attr\<close> a
  \<^verbatim>\<open>map<string, AttrValue>\<close>.
\<close>

type_synonym 'p ArgAttrs = "(string \<times> 'p AttrValue) list"

record 'p FunctionDef =
  input_arg :: "ArgDef list"
  arg_attr :: "(32 word \<times> 'p ArgAttrs) list"

record 'p FunctionBody =
  fdef :: "'p FunctionDef"

definition wf_FunctionDef :: "'p FunctionDef \<Rightarrow> bool" where
  "wf_FunctionDef f =
     (distinct (map fst (arg_attr f)) \<and>
      list_all (\<lambda>entry. distinct (map fst (snd entry))) (arg_attr f))"

section \<open>The compiler's argument descriptors\<close>

datatype Kind = kInvalid | kConstant | kResource | kParameter

text \<open>\<^verbatim>\<open>XlaCompiler::Argument\<close>: the four fields the builder assigns; \<^verbatim>\<open>'s\<close> is \<^verbatim>\<open>TensorShape\<close>.\<close>

record 's Argument =
  kind :: Kind
  type :: DataType
  shape :: 's
  name :: string

section \<open>A vector with reserved storage\<close>

text \<open>
  \<^verbatim>\<open>std::vector\<close>: \<open>vsize\<close> is \<^verbatim>\<open>size()\<close>, the length of \<open>vstore\<close> is \<^verbatim>\<open>capacity()\<close>, and a
  slot of the storage holds \<open>None\<close> until an object is written there. \<^verbatim>\<open>reserve\<close> on the
  empty vector allocates storage for the number of elements asked for and leaves the size
  at zero. \<^verbatim>\<open>operator[]\<close> does not check its index: it addresses the slot. The C++ standard
  defines the access only below \<open>vsize\<close>; the model follows what the unchecked operator
  does inside the allocated storage, records every access with the size at that moment
  (\<open>access\<close> below), and is \<open>Undefined\<close> outside the storage or on a slot never written.
\<close>

record 'a vector =
  vsize :: nat
  vstore :: "'a option list"

definition reserve :: "nat \<Rightarrow> 'a vector" where
  "reserve n = \<lparr>vsize = 0, vstore = replicate n None\<rparr>"

text \<open>
  An indexed access to a sequence, with the index and the length of the sequence at that
  moment: the read of \<^verbatim>\<open>shape()[0]\<close>, the write through \<^verbatim>\<open>&shapes[idx]\<close>, the read of
  \<^verbatim>\<open>shapes[input_num]\<close>.
\<close>

datatype access = ShapeListRead nat nat | ShapesWrite nat nat | ShapesRead nat nat

fun in_bounds :: "access \<Rightarrow> bool" where
  "in_bounds (ShapeListRead i n) = (i < n)"
| "in_bounds (ShapesWrite i n) = (i < n)"
| "in_bounds (ShapesRead i n) = (i < n)"

section \<open>BuildXlaCompilerArgumentFromFuncBody\<close>

text \<open>
  \<^verbatim>\<open>TensorShape::BuildTensorShape\<close> is not among the sources: it is the parameter \<open>parse\<close>,
  which returns a status or the shape it builds.

  The inner loop (lines 155--161) over the attributes of one annotation. Every function
  returns its outcome and the accesses made so far.
\<close>

fun attr_loop ::
  "('p \<Rightarrow> Status + 's) \<Rightarrow> 32 word \<Rightarrow> 'p ArgAttrs \<Rightarrow> bool \<Rightarrow> 's vector \<Rightarrow> access list
     \<Rightarrow> (bool \<times> 's vector) outcome \<times> access list" where
  "attr_loop parse idx [] has_function_input_shape shapes log =
     (Ok (has_function_input_shape, shapes), log)"
| "attr_loop parse idx (attr_value # rest) has_function_input_shape shapes log =
     (if fst attr_value = ''_output_shapes'' then
        (let ps = list_shape (snd attr_value);
             log1 = log @ [ShapeListRead 0 (length ps), ShapesWrite (unat idx) (vsize shapes)]
         in case ps of
              [] \<Rightarrow> (Undefined OutOfRange, log1)
            | p # _ \<Rightarrow>
                if unat idx < length (vstore shapes) then
                  (case parse p of
                     Inl st \<Rightarrow> (Error st, log1)
                   | Inr s \<Rightarrow>
                       attr_loop parse idx rest True
                         (shapes\<lparr>vstore := (vstore shapes)[unat idx := Some s]\<rparr>) log1)
                else (Undefined OutOfRange, log1))
      else attr_loop parse idx rest has_function_input_shape shapes log)"

text \<open>The outer loop (lines 152--163) over the annotations, with its \<^verbatim>\<open>TF_RET_CHECK\<close>.\<close>

fun arg_attrs_loop ::
  "('p \<Rightarrow> Status + 's) \<Rightarrow> (32 word \<times> 'p ArgAttrs) list \<Rightarrow> 's vector \<Rightarrow> access list
     \<Rightarrow> 's vector outcome \<times> access list" where
  "arg_attrs_loop parse [] shapes log = (Ok shapes, log)"
| "arg_attrs_loop parse (attr # rest) shapes log =
     (case attr_loop parse (fst attr) (snd attr) False shapes log of
        (Ok (has_function_input_shape, shapes'), log') \<Rightarrow>
          if has_function_input_shape then arg_attrs_loop parse rest shapes' log'
          else (Error (RET_CHECK_failure ''has_function_input_shape''), log')
      | (Error st, log') \<Rightarrow> (Error st, log')
      | (Undefined u, log') \<Rightarrow> (Undefined u, log'))"

text \<open>
  The loop that builds the arguments (lines 168--174). \<^verbatim>\<open>args\<close> was resized to the arity, so
  the writes to \<^verbatim>\<open>args[input_num]\<close> are inside it; the read of \<^verbatim>\<open>shapes[input_num]\<close> goes
  to the storage slot.
\<close>

fun args_loop ::
  "ArgDef list \<Rightarrow> nat \<Rightarrow> 's vector \<Rightarrow> access list \<Rightarrow> 's Argument list outcome \<times> access list" where
  "args_loop [] input_num shapes log = (Ok [], log)"
| "args_loop (a # rest) input_num shapes log =
     (let log1 = log @ [ShapesRead input_num (vsize shapes)]
      in if input_num < length (vstore shapes) then
           (case vstore shapes ! input_num of
              None \<Rightarrow> (Undefined OutOfRange, log1)
            | Some s \<Rightarrow>
                (case args_loop rest (Suc input_num) shapes log1 of
                   (Ok args, log') \<Rightarrow>
                     (Ok (\<lparr>kind = kParameter, type = arg_type a, shape = s, name = arg_name a\<rparr>
                          # args), log')
                 | (Error st, log') \<Rightarrow> (Error st, log')
                 | (Undefined u, log') \<Rightarrow> (Undefined u, log')))
         else (Undefined OutOfRange, log1))"

definition outside_variable_message :: string where
  "outside_variable_message =
     ''The function to be lowered uses some tf.Variable defined outside_'' @
     ''_the_function body.  This is not supported with using_tensor_spec.'' @
     ''Please modify the function with pure functional style.''"

definition BuildXlaCompilerArgumentFromFuncBody_log ::
  "('p \<Rightarrow> Status + 's) \<Rightarrow> 'p FunctionBody option \<Rightarrow> 's Argument list outcome \<times> access list" where
  "BuildXlaCompilerArgumentFromFuncBody_log parse fbody =
     (case fbody of
        None \<Rightarrow> (Error (RET_CHECK_failure ''fbody != nullptr''), [])
      | Some fb \<Rightarrow>
          (let input_args = input_arg (fdef fb);
               input_arg_size = length input_args;
               arg_attrs = arg_attr (fdef fb)
           in if length arg_attrs \<noteq> input_arg_size then
                (Error (Status INVALID_ARGUMENT (Text outside_variable_message)), [])
              else
                (case arg_attrs_loop parse arg_attrs (reserve input_arg_size) [] of
                   (Ok shapes, log) \<Rightarrow> args_loop input_args 0 shapes log
                 | (Error st, log) \<Rightarrow> (Error st, log)
                 | (Undefined u, log) \<Rightarrow> (Undefined u, log))))"

definition BuildXlaCompilerArgumentFromFuncBody ::
  "('p \<Rightarrow> Status + 's) \<Rightarrow> 'p FunctionBody option \<Rightarrow> 's Argument list outcome" where
  "BuildXlaCompilerArgumentFromFuncBody parse fbody =
     fst (BuildXlaCompilerArgumentFromFuncBody_log parse fbody)"


text \<open>
  The shape an annotation declares, as the builder reads it: the first shape of the
  \<^verbatim>\<open>_output_shapes\<close> attribute, when the attribute is there, its list is not empty and
  \<^verbatim>\<open>BuildTensorShape\<close> accepts that shape.
\<close>

definition annotation_shape :: "('p \<Rightarrow> Status + 's) \<Rightarrow> 'p ArgAttrs \<Rightarrow> 's option" where
  "annotation_shape parse attrs =
     (case map_of attrs ''_output_shapes'' of
        None \<Rightarrow> None
      | Some av \<Rightarrow>
          (case list_shape av of
             [] \<Rightarrow> None
           | p # _ \<Rightarrow> (case parse p of Inl _ \<Rightarrow> None | Inr s \<Rightarrow> Some s)))"

text \<open>The shape declared for the argument at index \<open>i\<close>: that of the annotation keyed \<open>i\<close>.\<close>

definition declared_shape :: "('p \<Rightarrow> Status + 's) \<Rightarrow> 'p FunctionDef \<Rightarrow> nat \<Rightarrow> 's option" where
  "declared_shape parse f i =
     (case map_of (arg_attr f) (of_nat i) of
        None \<Rightarrow> None
      | Some attrs \<Rightarrow> annotation_shape parse attrs)"

text \<open>What one well-formed annotation does to \<^verbatim>\<open>shapes\<close>: it fills the slot of its key.\<close>

definition write_slot :: "('p \<Rightarrow> Status + 's) \<Rightarrow> 32 word \<times> 'p ArgAttrs \<Rightarrow> 's vector \<Rightarrow> 's vector" where
  "write_slot parse e v = v\<lparr>vstore := (vstore v)[unat (fst e) := annotation_shape parse (snd e)]\<rparr>"

section \<open>Export stages, compilation results and the XLA client\<close>

datatype IrExportStage =
    HLO | HLO_NO_METADATA | HLO_SERIALIZED
  | OPTIMIZED_HLO | OPTIMIZED_HLO_SERIALIZED | OPTIMIZED_HLO_PROTO_SERIALIZED | OPTIMIZED_HLO_DOT

text \<open>
  \<^verbatim>\<open>XlaCompiler::CompilationResult\<close>: \<^verbatim>\<open>'c\<close> is the computation, \<^verbatim>\<open>'l\<close> is \<^verbatim>\<open>xla::Shape\<close>;
  \<open>collective_info\<close> holds the group size when it is set.
\<close>

record ('c, 'l) CompilationResult =
  computation :: 'c
  xla_input_shapes :: "'l list"
  xla_output_shape :: 'l
  collective_info :: "int option"

text \<open>\<^verbatim>\<open>XlaCompiler::Options\<close>: the fields \<^verbatim>\<open>BuildExecutable\<close> reads; the allocator is an address.\<close>

record Options =
  device_ordinal :: int
  device_allocator :: nat
  alias_passthrough_params :: bool
  detailed_logging :: bool

text \<open>
  \<^verbatim>\<open>xla::ExecutableBuildOptions\<close> with the two debug options that are set. A field left at
  the default of the constructor is \<open>None\<close>.
\<close>

record 'l ExecutableBuildOptions =
  num_replicas :: "int option"
  bo_device_ordinal :: int
  result_layout :: 'l
  bo_device_allocator :: nat
  bo_alias_passthrough_params :: bool
  xla_detailed_logging_and_dumping :: bool
  xla_embed_ir_in_executable :: bool

text \<open>\<^verbatim>\<open>xla::LocalClient\<close>: \<^verbatim>\<open>'x\<close> is \<^verbatim>\<open>xla::LocalExecutable\<close>.\<close>

record ('c, 'l, 'x) LocalClient =
  default_device_ordinal :: int
  Compile :: "'c \<Rightarrow> 'l list \<Rightarrow> 'l ExecutableBuildOptions \<Rightarrow> Status + 'x list"

record HloPrintOptions =
  print_metadata :: bool

text \<open>
  The operations of XLA that \<^verbatim>\<open>BuildHLOString\<close> calls, none of them among the sources:
  \<^verbatim>\<open>'ps\<close> is \<^verbatim>\<open>xla::ProgramShape\<close>, \<^verbatim>\<open>'m\<close> is \<^verbatim>\<open>xla::HloModule\<close>, \<^verbatim>\<open>'h\<close> is \<^verbatim>\<open>xla::HloProto\<close>.
  \<open>CreateFromProto\<close> takes the computation, for its proto, and the program shape, for the
  module's configuration. \<open>hlo_proto\<close> is a pointer: \<open>None\<close> is null.
\<close>

record ('c, 'ps, 'm, 'x, 'h) XlaApi =
  GetProgramShape :: "'c \<Rightarrow> Status + 'ps"
  CreateFromProto :: "'c \<Rightarrow> 'ps \<Rightarrow> Status + 'm"
  new_HloPrintOptions :: HloPrintOptions
  ToString_with :: "'m \<Rightarrow> HloPrintOptions \<Rightarrow> string"
  ToString :: "'m \<Rightarrow> string"
  ToProto_SerializeAsString :: "'m \<Rightarrow> string"
  executable_module :: "'x \<Rightarrow> 'm"
  hlo_proto :: "'x \<Rightarrow> 'h option"
  HloProto_SerializeAsString :: "'h \<Rightarrow> string"
  RenderGraph :: "'m \<Rightarrow> Status + string"

section \<open>The trace of a call\<close>

text \<open>
  The calls a run makes to its collaborators, in order, and the locks it takes and gives
  back. \<open>BuildExecutableCalled\<close> carries the embed-IR parameter of the call,
  \<open>ClientCompileCalled\<close> the embed-IR flag of the build options the client receives,
  \<open>CompilerOptionsGenerated\<close> the \<^verbatim>\<open>has_ref_vars\<close> argument.
\<close>

datatype event =
    ResolverCalled
  | TensorRead nat
  | CopiedToHost nat
  | VariableInfosResolved
  | Locked int
  | Unlocked int
  | DeviceCompilerLookedUp
  | DeviceCompilerUnref
  | TfrtTpuOptionsGenerated
  | CompilerOptionsGenerated bool
  | CompileFunctionCalled
  | BuildExecutableCalled bool
  | ClientCompileCalled bool

section \<open>BuildExecutable\<close>

text \<open>
  Lines 46--78. \<^verbatim>\<open>argument_layouts\<close> holds the addresses of the input shapes in order: it
  is the list of these shapes. The build options are those the function sets (lines 56--71).
\<close>

definition executable_build_options ::
  "('c, 'l, 'x) LocalClient \<Rightarrow> ('c, 'l) CompilationResult \<Rightarrow> Options \<Rightarrow> bool
     \<Rightarrow> 'l ExecutableBuildOptions" where
  "executable_build_options local_client result options embed_ir_in_executable =
     \<lparr>num_replicas = collective_info result,
      bo_device_ordinal =
        (if device_ordinal options \<noteq> - 1 then device_ordinal options
         else default_device_ordinal local_client),
      result_layout = xla_output_shape result,
      bo_device_allocator = device_allocator options,
      bo_alias_passthrough_params = alias_passthrough_params options,
      xla_detailed_logging_and_dumping = detailed_logging options,
      xla_embed_ir_in_executable = embed_ir_in_executable\<rparr>"

definition BuildExecutable ::
  "('c, 'l, 'x) LocalClient \<Rightarrow> ('c, 'l) CompilationResult \<Rightarrow> Options \<Rightarrow> bool
     \<Rightarrow> 'x outcome \<times> event list" where
  "BuildExecutable local_client result options embed_ir_in_executable =
     (let argument_layouts = xla_input_shapes result;
          build_options =
            executable_build_options local_client result options embed_ir_in_executable;
          trace = [BuildExecutableCalled embed_ir_in_executable,
                   ClientCompileCalled (xla_embed_ir_in_executable build_options)]
      in case Compile local_client (computation result) argument_layouts build_options of
           Inl st \<Rightarrow> (Error st, trace)
         | Inr executables \<Rightarrow>
             if length executables = 1 then (Ok (executables ! 0), trace)
             else (Error (RET_CHECK_failure ''executables.size() == 1''), trace))"

section \<open>BuildHLOString\<close>

text \<open>
  Lines 80--134. The parameter that \<^verbatim>\<open>BuildExecutable\<close> declares with the default
  \<^verbatim>\<open>false\<close> is written out at the calls that leave it out.
\<close>

definition BuildHLOString ::
  "('c, 'ps, 'm, 'x, 'h) XlaApi \<Rightarrow> IrExportStage \<Rightarrow> ('c, 'l) CompilationResult
     \<Rightarrow> ('c, 'l, 'x) LocalClient \<Rightarrow> Options \<Rightarrow> string outcome \<times> event list" where
  "BuildHLOString api stage result local_client options =
     (if stage = HLO \<or> stage = HLO_NO_METADATA \<or> stage = HLO_SERIALIZED then
        (case GetProgramShape api (computation result) of
           Inl st \<Rightarrow> (Error st, [])
         | Inr program_shape \<Rightarrow>
             (case CreateFromProto api (computation result) program_shape of
                Inl st \<Rightarrow> (Error st, [])
              | Inr new_module \<Rightarrow>
                  (let opts = (if stage = HLO_NO_METADATA
                               then (new_HloPrintOptions api)\<lparr>print_metadata := False\<rparr>
                               else new_HloPrintOptions api)
                   in if stage = HLO_SERIALIZED
                      then (Ok (ToProto_SerializeAsString api new_module), [])
                      else (Ok (ToString_with api new_module opts), []))))
      else if stage = OPTIMIZED_HLO \<or> stage = OPTIMIZED_HLO_SERIALIZED then
        (case BuildExecutable local_client result options False of
           (Ok executable, trace) \<Rightarrow>
             (let new_executable_module = executable_module api executable
              in if stage = OPTIMIZED_HLO_SERIALIZED
                 then (Ok (ToProto_SerializeAsString api new_executable_module), trace)
                 else (Ok (ToString api new_executable_module), trace))
         | (Error st, trace) \<Rightarrow> (Error st, trace)
         | (Undefined u, trace) \<Rightarrow> (Undefined u, trace))
      else if stage = OPTIMIZED_HLO_PROTO_SERIALIZED then
        (case BuildExecutable local_client result options True of
           (Ok executable, trace) \<Rightarrow>
             (case hlo_proto api executable of
                None \<Rightarrow> (Undefined NullDereference, trace)
              | Some proto \<Rightarrow> (Ok (HloProto_SerializeAsString api proto), trace))
         | (Error st, trace) \<Rightarrow> (Error st, trace)
         | (Undefined u, trace) \<Rightarrow> (Undefined u, trace))
      else
        (case BuildExecutable local_client result options False of
           (Ok executable, trace) \<Rightarrow>
             (case RenderGraph api (executable_module api executable) of
                Inl st \<Rightarrow> (Error st, trace)
              | Inr graph \<Rightarrow> (Ok graph, trace))
         | (Error st, trace) \<Rightarrow> (Error st, trace)
         | (Undefined u, trace) \<Rightarrow> (Undefined u, trace)))"

section \<open>The exporter in the words of the spec\<close>

text \<open>
  The producers of the spec (4.9), to compare \<open>BuildHLOString\<close> with. A from-program
  producer renders the module made from the program; a from-executable producer says
  whether the executable is built with the embed-IR flag and renders the built executable.
\<close>

datatype ('m, 'x) producer =
    FromProgram "'m \<Rightarrow> string"
  | FromExecutable bool "'x \<Rightarrow> string outcome"

text \<open>
  The spec's table: "HLO: program text with metadata; HLO_NO_METADATA: program text without
  metadata; HLO_SERIALIZED: program's binary protocol form"; "OPTIMIZED_HLO:
  optimized-program text; OPTIMIZED_HLO_SERIALIZED: optimized-program binary protocol form;
  OPTIMIZED_HLO_PROTO_SERIALIZED: executable built with the embed-IR flag set, returning the
  embedded combined program+buffer-assignment payload, serialized; OPTIMIZED_HLO_DOT:
  renders the optimized program's entry computation as a graph-visualization-format string".
\<close>

fun spec_producer :: "('c, 'ps, 'm, 'x, 'h) XlaApi \<Rightarrow> IrExportStage \<Rightarrow> ('m, 'x) producer" where
  "spec_producer api HLO =
     FromProgram (\<lambda>m. ToString_with api m (new_HloPrintOptions api))"
| "spec_producer api HLO_NO_METADATA =
     FromProgram (\<lambda>m. ToString_with api m ((new_HloPrintOptions api)\<lparr>print_metadata := False\<rparr>))"
| "spec_producer api HLO_SERIALIZED =
     FromProgram (\<lambda>m. ToProto_SerializeAsString api m)"
| "spec_producer api OPTIMIZED_HLO =
     FromExecutable False (\<lambda>x. Ok (ToString api (executable_module api x)))"
| "spec_producer api OPTIMIZED_HLO_SERIALIZED =
     FromExecutable False (\<lambda>x. Ok (ToProto_SerializeAsString api (executable_module api x)))"
| "spec_producer api OPTIMIZED_HLO_PROTO_SERIALIZED =
     FromExecutable True
       (\<lambda>x. case hlo_proto api x of
              None \<Rightarrow> Undefined NullDereference
            | Some proto \<Rightarrow> Ok (HloProto_SerializeAsString api proto))"
| "spec_producer api OPTIMIZED_HLO_DOT =
     FromExecutable False
       (\<lambda>x. case RenderGraph api (executable_module api x) of
              Inl st \<Rightarrow> Error st
            | Inr graph \<Rightarrow> Ok graph)"

text \<open>
  Running one producer: the from-program one makes the module from the program and never
  calls the Executable Builder; the from-executable one calls the Executable Builder once
  and renders what it built.
\<close>

fun spec_run_producer ::
  "('c, 'ps, 'm, 'x, 'h) XlaApi \<Rightarrow> ('c, 'l) CompilationResult \<Rightarrow> ('c, 'l, 'x) LocalClient
     \<Rightarrow> Options \<Rightarrow> ('m, 'x) producer \<Rightarrow> string outcome \<times> event list" where
  "spec_run_producer api result local_client options (FromProgram render) =
     (case GetProgramShape api (computation result) of
        Inl st \<Rightarrow> (Error st, [])
      | Inr program_shape \<Rightarrow>
          (case CreateFromProto api (computation result) program_shape of
             Inl st \<Rightarrow> (Error st, [])
           | Inr new_module \<Rightarrow> (Ok (render new_module), [])))"
| "spec_run_producer api result local_client options (FromExecutable embed_ir render) =
     (case fst (BuildExecutable local_client result options embed_ir) of
        Ok executable \<Rightarrow>
          (render executable, snd (BuildExecutable local_client result options embed_ir))
      | Error st \<Rightarrow> (Error st, snd (BuildExecutable local_client result options embed_ir))
      | Undefined u \<Rightarrow>
          (Undefined u, snd (BuildExecutable local_client result options embed_ir)))"

section \<open>Devices and the collaborators of GetCompilerIr\<close>

text \<open>
  The device type constants \<^verbatim>\<open>DEVICE_CPU\<close> and \<^verbatim>\<open>DEVICE_TPU\<close> are not among the sources:
  the types of device are the constructors of a datatype, which only says that the two
  constants differ.
\<close>

datatype DeviceType = DEVICE_CPU | DEVICE_GPU | DEVICE_TPU | DEVICE_OTHER string

text \<open>\<^verbatim>\<open>DeviceBase::AcceleratorDeviceInfo\<close>: \<open>stream\<close> is a pointer, \<open>None\<close> is null.\<close>

record AcceleratorDeviceInfo =
  stream :: "nat option"

text \<open>\<open>tensorflow_accelerator_device_info\<close> returns a pointer: \<open>None\<close> is null.\<close>

record Device =
  device_type :: DeviceType
  device_name :: string
  tensorflow_accelerator_device_info :: "AcceleratorDeviceInfo option"

record XlaPlatformInfo =
  platform_device_type :: DeviceType

record CompileOptions =
  always_return_tuple :: bool
  alias_resource_update :: bool

text \<open>
  Modelled from the spec: \<^verbatim>\<open>VariableInfo\<close> is not among the sources. The spec's
  \<^verbatim>\<open>VariableHandle\<close> "identifies a resource-backed argument; carries a lock state".
\<close>

record VariableInfo =
  index :: int
  lock_held :: bool

text \<open>
  The functions \<^verbatim>\<open>GetCompilerIr\<close> calls that are not among the sources, as one record of
  parameters: \<^verbatim>\<open>'th\<close> is \<^verbatim>\<open>TensorHandle\<close>, \<^verbatim>\<open>'t\<close> is \<^verbatim>\<open>Tensor\<close>, \<^verbatim>\<open>'dc\<close> is the device
  compiler. The function library runtime \<^verbatim>\<open>flr\<close> is found from the name of the device, so
  the resolver takes this name and the name of the function; \<open>CopyToDevice\<close> is the copy to
  the host (\<^verbatim>\<open>d = nullptr\<close>) into a fresh tensor of the same type and shape and returns
  this tensor; \<open>LookupOrCreate\<close> is the lookup in the resource manager with
  \<^verbatim>\<open>BuildXlaDeviceCompiler\<close> as the factory. \<open>variable_lookup_failure\<close> and \<open>lock_failure\<close>
  say when resolving the variables and taking a lock fail.
\<close>

record ('th, 't, 'p, 's, 'dc, 'c, 'l, 'x) Runtime =
  GetBodyAndConstantsAndResources ::
    "string \<Rightarrow> string \<Rightarrow> Status + ('p FunctionBody option \<times> int list \<times> int list)"
  Tensor :: "'th \<Rightarrow> Status + 't"
  CopyToDevice :: "'th \<Rightarrow> Status + 't"
  dtype :: "'t \<Rightarrow> DataType"
  tensor_shape :: "'t \<Rightarrow> 's"
  variable_lookup_failure :: "'t list \<Rightarrow> int list \<Rightarrow> Status option"
  lock_failure :: "int \<Rightarrow> Status option"
  XlaPlatformInfoFromDevice :: "Device \<Rightarrow> XlaPlatformInfo"
  LookupOrCreate :: "Device \<Rightarrow> XlaPlatformInfo \<Rightarrow> Status + 'dc"
  client :: "'dc \<Rightarrow> ('c, 'l, 'x) LocalClient"
  GenerateTfrtTpuCompilerOptions :: "'dc \<Rightarrow> Options"
  GenerateCompilerOptions ::
    "'dc \<Rightarrow> Device \<Rightarrow> nat option \<Rightarrow> XlaPlatformInfo \<Rightarrow> bool \<Rightarrow> Options"
  BuildTensorShape :: "'p \<Rightarrow> Status + 's"
  CompileFunction ::
    "Options \<Rightarrow> CompileOptions \<Rightarrow> string \<Rightarrow> 's Argument list
       \<Rightarrow> Status + ('c, 'l) CompilationResult"

section \<open>Sequencing fallible steps\<close>

text \<open>A call of a collaborator that returns a status or a value, with the events it leaves.\<close>

definition call :: "event list \<Rightarrow> Status + 'a \<Rightarrow> 'a outcome \<times> event list" where
  "call evs r = (case r of Inl st \<Rightarrow> (Error st, evs) | Inr a \<Rightarrow> (Ok a, evs))"

text \<open>
  \<^verbatim>\<open>TF_ASSIGN_OR_RETURN\<close> and \<^verbatim>\<open>TF_RETURN_IF_ERROR\<close>: a step that does not yield a value
  ends the function with its outcome; otherwise the function goes on with the value.
\<close>

definition and_then ::
  "'a outcome \<times> event list \<Rightarrow> ('a \<Rightarrow> 'b outcome \<times> event list) \<Rightarrow> 'b outcome \<times> event list" where
  "and_then r k =
     (case fst r of
        Ok a \<Rightarrow> (fst (k a), snd r @ snd (k a))
      | Error st \<Rightarrow> (Error st, snd r)
      | Undefined u \<Rightarrow> (Undefined u, snd r))"

text \<open>
  A local object with a destructor: whatever way the rest of the function ends, the
  destructor's events come last.
\<close>

definition at_exit :: "event list \<Rightarrow> 'a outcome \<times> event list \<Rightarrow> 'a outcome \<times> event list" where
  "at_exit evs r = (fst r, snd r @ evs)"

section \<open>Binary search\<close>

text \<open>
  \<^verbatim>\<open>absl::c_binary_search\<close> is \<^verbatim>\<open>std::binary_search\<close> over the whole container: the lower
  bound by halving, then the test of the element found.
\<close>

function lower_bound :: "int list \<Rightarrow> int \<Rightarrow> nat \<Rightarrow> nat \<Rightarrow> nat" where
  "lower_bound xs v first count =
     (if count = 0 then first
      else (let step = count div 2; it = first + step
            in if xs ! it < v then lower_bound xs v (Suc it) (count - (step + 1))
               else lower_bound xs v first step))"
  by pat_completeness auto
termination
  by (relation "measure (\<lambda>(xs, v, first, count). count)") auto

definition c_binary_search :: "int list \<Rightarrow> int \<Rightarrow> bool" where
  "c_binary_search xs v =
     (let first = lower_bound xs v 0 (length xs)
      in first \<noteq> length xs \<and> \<not> v < xs ! first)"

section \<open>The inputs of value mode\<close>

text \<open>
  Lines 220--234. \<^verbatim>\<open>inputs\<close> holds pointers, to the tensor its handle owns or to the last
  element of \<^verbatim>\<open>inputs_storage\<close>; a deque keeps the address of an element when others are
  appended, so a pointer is modelled by the tensor it points to. The result is
  \<^verbatim>\<open>inputs_storage\<close> and \<^verbatim>\<open>inputs\<close>.
\<close>

fun inputs_loop ::
  "('th, 't, 'p, 's, 'dc, 'c, 'l, 'x) Runtime \<Rightarrow> int list \<Rightarrow> 'th list \<Rightarrow> nat
     \<Rightarrow> ('t list \<times> 't list) outcome \<times> event list" where
  "inputs_loop rt constant_arg_indices [] i = (Ok ([], []), [])"
| "inputs_loop rt constant_arg_indices (th # rest) i =
     and_then (call [TensorRead i] (Tensor rt th)) (\<lambda>t.
       if c_binary_search constant_arg_indices (int i) then
         and_then (call [CopiedToHost i] (CopyToDevice rt th)) (\<lambda>host.
           and_then (inputs_loop rt constant_arg_indices rest (Suc i)) (\<lambda>(inputs_storage, inputs).
             (Ok (host # inputs_storage, host # inputs), [])))
       else
         and_then (inputs_loop rt constant_arg_indices rest (Suc i)) (\<lambda>(inputs_storage, inputs).
           (Ok (inputs_storage, t # inputs), [])))"

section \<open>Variables and their locks\<close>

text \<open>
  Modelled from the spec: \<^verbatim>\<open>GetVariableInfosFromInputs\<close> is not among the sources. The spec
  (4.4): "Given a set of resource-backed indices and their runtime values, resolves each to a
  VariableHandle". A handle is created without its lock.
\<close>

definition GetVariableInfosFromInputs ::
  "('th, 't, 'p, 's, 'dc, 'c, 'l, 'x) Runtime \<Rightarrow> 't list \<Rightarrow> int list \<Rightarrow> Status + VariableInfo list" where
  "GetVariableInfosFromInputs rt inputs resource_arg_indices =
     (case variable_lookup_failure rt inputs resource_arg_indices of
        Some st \<Rightarrow> Inl st
      | None \<Rightarrow> Inr (map (\<lambda>i. \<lparr>index = i, lock_held = False\<rparr>) resource_arg_indices))"

text \<open>
  Modelled from the spec: \<^verbatim>\<open>LockVariables\<close> is not among the sources. The spec (4.4):
  "acquires its lock, in ascending index order. Guarantees: all locks acquired together or
  none (all-or-nothing); on any acquisition failure, all already-acquired locks in this call
  are released before the error is surfaced." \<open>acquired\<close> holds the locks taken so far, the
  last one first.
\<close>

fun acquire_in_order :: "(int \<Rightarrow> Status option) \<Rightarrow> int list \<Rightarrow> int list \<Rightarrow> Status option \<times> event list" where
  "acquire_in_order fails [] acquired = (None, [])"
| "acquire_in_order fails (i # rest) acquired =
     (case fails i of
        Some st \<Rightarrow> (Some st, map Unlocked acquired)
      | None \<Rightarrow>
          (case acquire_in_order fails rest (i # acquired) of
             (r, trace) \<Rightarrow> (r, Locked i # trace)))"

text \<open>
  Modelled from the spec: \<^verbatim>\<open>LockVariables\<close> itself, with the same words of the spec (4.4):
  the locks are taken in ascending order of the index of the handle, and a handle holds its
  lock once all are taken.
\<close>

definition LockVariables ::
  "('th, 't, 'p, 's, 'dc, 'c, 'l, 'x) Runtime \<Rightarrow> VariableInfo list
     \<Rightarrow> VariableInfo list outcome \<times> event list" where
  "LockVariables rt variables =
     (case acquire_in_order (lock_failure rt) (sort (map index variables)) [] of
        (None, trace) \<Rightarrow> (Ok (map (\<lambda>v. v\<lparr>lock_held := True\<rparr>) variables), trace)
      | (Some st, trace) \<Rightarrow> (Error st, trace))"

text \<open>
  Modelled from the spec: the destructor of \<^verbatim>\<open>VariableInfo\<close> is not among the sources. The
  spec (4.4): "Locks are held for the remainder of the call (through compilation) and
  released unconditionally when the call returns, success or failure." These are the events
  of destroying \<^verbatim>\<open>variable_infos\<close>.
\<close>

definition release_locks :: "VariableInfo list \<Rightarrow> event list" where
  "release_locks variable_infos = map (\<lambda>v. Unlocked (index v)) (filter lock_held variable_infos)"

text \<open>
  Lines 216--239: the block of value mode; it yields \<^verbatim>\<open>inputs\<close> and \<^verbatim>\<open>variable_infos\<close>.
  The memory types of lines 217--219 are computed and not used again: they are left out.
\<close>

definition value_mode_inputs ::
  "('th, 't, 'p, 's, 'dc, 'c, 'l, 'x) Runtime \<Rightarrow> int list \<Rightarrow> int list \<Rightarrow> 'th list
     \<Rightarrow> ('t list \<times> VariableInfo list) outcome \<times> event list" where
  "value_mode_inputs rt constant_arg_indices resource_arg_indices inputs_handles =
     and_then (inputs_loop rt constant_arg_indices inputs_handles 0) (\<lambda>(inputs_storage, inputs).
       and_then (call [VariableInfosResolved]
                   (GetVariableInfosFromInputs rt inputs resource_arg_indices)) (\<lambda>variable_infos.
         and_then (LockVariables rt variable_infos) (\<lambda>locked.
           (Ok (inputs, locked), []))))"

section \<open>The arguments of value mode\<close>

text \<open>
  Modelled from the spec: \<^verbatim>\<open>XlaComputationLaunchContext::BuildXlaCompilerArguments\<close> is not
  among the sources. The spec (4.3): "Produces descriptors tagging kind as
  Parameter/Constant/Resource per the classification sets, with shape and type taken from the
  runtime value, not from static metadata." The resource-backed indices are those of the
  variable handles.
\<close>

fun value_arguments ::
  "('th, 't, 'p, 's, 'dc, 'c, 'l, 'x) Runtime \<Rightarrow> int list \<Rightarrow> VariableInfo list \<Rightarrow> nat \<Rightarrow> 't list
     \<Rightarrow> 's Argument list" where
  "value_arguments rt must_be_constant_idxs variable_args input_num [] = []"
| "value_arguments rt must_be_constant_idxs variable_args input_num (t # rest) =
     \<lparr>kind = (if int input_num \<in> set must_be_constant_idxs then kConstant
              else if int input_num \<in> index ` set variable_args then kResource
              else kParameter),
      type = dtype rt t, shape = tensor_shape rt t, name = []\<rparr>
     # value_arguments rt must_be_constant_idxs variable_args (Suc input_num) rest"

text \<open>
  Modelled from the spec: \<^verbatim>\<open>BuildXlaCompilerArguments\<close> itself, one descriptor per input
  from index 0 on; the spec names no failure of it.
\<close>

definition BuildXlaCompilerArguments ::
  "('th, 't, 'p, 's, 'dc, 'c, 'l, 'x) Runtime \<Rightarrow> int list \<Rightarrow> 't list \<Rightarrow> VariableInfo list
     \<Rightarrow> 's Argument list outcome" where
  "BuildXlaCompilerArguments rt must_be_constant_idxs inputs variable_args =
     Ok (value_arguments rt must_be_constant_idxs variable_args 0 inputs)"

section \<open>GetCompilerIr\<close>

definition is_tfrt_tpu_supported_stage :: "IrExportStage \<Rightarrow> bool" where
  "is_tfrt_tpu_supported_stage stage =
     (stage = HLO \<or> stage = HLO_NO_METADATA \<or> stage = HLO_SERIALIZED)"

text \<open>
  Lines 194--199. The conjunction is evaluated from the left: a CPU device ends it at once,
  any other device has the stream of its accelerator info read through the pointer.
\<close>

definition stage_support_check :: "Device \<Rightarrow> IrExportStage \<Rightarrow> unit outcome" where
  "stage_support_check dev stage =
     (if device_type dev \<noteq> DEVICE_CPU then
        (case tensorflow_accelerator_device_info dev of
           None \<Rightarrow> Undefined NullDereference
         | Some info \<Rightarrow>
             if stream info = None \<and> \<not> is_tfrt_tpu_supported_stage stage then
               Error (Status INTERNAL
                 (Text ''GetCompilerIr with requested stage is not supported on this device.''))
             else Ok ())
      else Ok ())"

text \<open>Lines 252--256: the stream, read only when the accelerator info is not null.\<close>

definition device_stream :: "Device \<Rightarrow> nat option" where
  "device_stream dev =
     (case tensorflow_accelerator_device_info dev of
        None \<Rightarrow> None
      | Some accelerator_device_info \<Rightarrow> stream accelerator_device_info)"

text \<open>Lines 258--265: the choice between the two generators of compiler options.\<close>

definition generate_options ::
  "('th, 't, 'p, 's, 'dc, 'c, 'l, 'x) Runtime \<Rightarrow> 'dc \<Rightarrow> Device \<Rightarrow> nat option \<Rightarrow> XlaPlatformInfo
     \<Rightarrow> Options \<times> event list" where
  "generate_options rt xla_device_compiler dev se_stream platform_info =
     (if platform_device_type platform_info = DEVICE_TPU \<and> se_stream = None then
        (GenerateTfrtTpuCompilerOptions rt xla_device_compiler, [TfrtTpuOptionsGenerated])
      else
        (GenerateCompilerOptions rt xla_device_compiler dev se_stream platform_info False,
         [CompilerOptionsGenerated False]))"

text \<open>Lines 273--279: the arguments, built from the function body or from the inputs.\<close>

definition build_arguments ::
  "('th, 't, 'p, 's, 'dc, 'c, 'l, 'x) Runtime \<Rightarrow> bool \<Rightarrow> 'p FunctionBody option \<Rightarrow> int list
     \<Rightarrow> 't list \<Rightarrow> VariableInfo list \<Rightarrow> 's Argument list outcome" where
  "build_arguments rt using_tensor_spec fbody constant_arg_indices inputs variable_infos =
     (if using_tensor_spec then BuildXlaCompilerArgumentFromFuncBody (BuildTensorShape rt) fbody
      else BuildXlaCompilerArguments rt constant_arg_indices inputs variable_infos)"

text \<open>
  Lines 241--287. The reference to the device compiler is dropped by the destructor of
  \<^verbatim>\<open>xla_device_compiler_ref\<close>, on every way out after the lookup.
\<close>

definition compile_and_export ::
  "('th, 't, 'p, 's, 'dc, 'c, 'l, 'x) Runtime \<Rightarrow> ('c, 'ps, 'm, 'x, 'h) XlaApi \<Rightarrow> IrExportStage
     \<Rightarrow> string \<Rightarrow> Device \<Rightarrow> bool \<Rightarrow> 'p FunctionBody option \<Rightarrow> int list \<Rightarrow> 't list
     \<Rightarrow> VariableInfo list \<Rightarrow> string outcome \<times> event list" where
  "compile_and_export rt api stage func_name dev using_tensor_spec fbody constant_arg_indices
       inputs variable_infos =
     (let platform_info = XlaPlatformInfoFromDevice rt dev
      in and_then (call [DeviceCompilerLookedUp] (LookupOrCreate rt dev platform_info))
           (\<lambda>xla_device_compiler.
              at_exit [DeviceCompilerUnref]
                (let se_stream = device_stream dev;
                     generated =
                       generate_options rt xla_device_compiler dev se_stream platform_info;
                     options = fst generated;
                     compile_options = \<lparr>always_return_tuple = False, alias_resource_update = True\<rparr>
                 in and_then
                      (build_arguments rt using_tensor_spec fbody constant_arg_indices inputs
                         variable_infos, snd generated)
                      (\<lambda>args.
                         and_then
                           (call [CompileFunctionCalled]
                              (CompileFunction rt options compile_options func_name args))
                           (\<lambda>result.
                              BuildHLOString api stage result (client rt xla_device_compiler)
                                options)))))"

text \<open>
  Lines 178--288. The runtime \<open>rt\<close> stands for \<^verbatim>\<open>pflr\<close>, \<^verbatim>\<open>context\<close> and the functions
  reached through them. Before \<open>LockVariables\<close> succeeds \<^verbatim>\<open>variable_infos\<close> holds no lock,
  so its destructor has an effect only on the ways out after the block of value mode.
\<close>

definition GetCompilerIr ::
  "('th, 't, 'p, 's, 'dc, 'c, 'l, 'x) Runtime \<Rightarrow> ('c, 'ps, 'm, 'x, 'h) XlaApi \<Rightarrow> IrExportStage
     \<Rightarrow> string \<Rightarrow> Device \<Rightarrow> 'th list \<Rightarrow> string outcome \<times> event list" where
  "GetCompilerIr rt api stage func_name dev inputs_handles =
     (let using_tensor_spec = (inputs_handles = [])
      in case stage_support_check dev stage of
           Undefined u \<Rightarrow> (Undefined u, [])
         | Error st \<Rightarrow> (Error st, [])
         | Ok _ \<Rightarrow>
             and_then
               (call [ResolverCalled]
                  (GetBodyAndConstantsAndResources rt (device_name dev) func_name))
               (\<lambda>(fbody, constant_arg_indices, resource_arg_indices).
                  and_then
                    (if using_tensor_spec then (Ok ([], []), [])
                     else value_mode_inputs rt constant_arg_indices resource_arg_indices
                            inputs_handles)
                    (\<lambda>(inputs, variable_infos).
                       at_exit (release_locks variable_infos)
                         (compile_and_export rt api stage func_name dev using_tensor_spec fbody
                            constant_arg_indices inputs variable_infos))))"

section \<open>Reading a trace\<close>

text \<open>The locks held after a trace, starting from those in \<open>held\<close>.\<close>

fun locks_held :: "int list \<Rightarrow> event list \<Rightarrow> int list" where
  "locks_held held [] = held"
| "locks_held held (Locked i # trace) = locks_held (held @ [i]) trace"
| "locks_held held (Unlocked i # trace) = locks_held (removeAll i held) trace"
| "locks_held held (e # trace) = locks_held held trace"

text \<open>The indices whose locks a trace takes, in the order it takes them.\<close>

fun acquisitions :: "event list \<Rightarrow> int list" where
  "acquisitions [] = []"
| "acquisitions (Locked i # trace) = i # acquisitions trace"
| "acquisitions (e # trace) = acquisitions trace"

text \<open>The events of the Compilation Driver and of the Executable Builder.\<close>

fun is_compilation :: "event \<Rightarrow> bool" where
  "is_compilation CompileFunctionCalled = True"
| "is_compilation (BuildExecutableCalled b) = True"
| "is_compilation (ClientCompileCalled b) = True"
| "is_compilation e = False"

fun is_lock_event :: "event \<Rightarrow> bool" where
  "is_lock_event (Locked i) = True"
| "is_lock_event (Unlocked i) = True"
| "is_lock_event e = False"

text \<open>
  At every compilation event of the trace the locks held are exactly those of \<open>required\<close>,
  when the trace starts with those of \<open>held\<close>.
\<close>

fun compiles_under_locks :: "int list \<Rightarrow> int list \<Rightarrow> event list \<Rightarrow> bool" where
  "compiles_under_locks required held [] = True"
| "compiles_under_locks required held (e # trace) =
     ((is_compilation e \<longrightarrow> set held = set required) \<and>
      compiles_under_locks required (locks_held held [e]) trace)"

text \<open>The number of calls of the Executable Builder in a trace.\<close>

fun is_builder_call :: "event \<Rightarrow> bool" where
  "is_builder_call (BuildExecutableCalled b) = True"
| "is_builder_call e = False"

definition executable_builder_calls :: "event list \<Rightarrow> nat" where
  "executable_builder_calls trace = length (filter is_builder_call trace)"

section \<open>Example inputs\<close>

text \<open>
  A function of two float parameters of shape (2, 2), as in the spec's end-to-end property;
  a shape is the list of its dimension sizes, and an annotation may carry other attributes.
\<close>

definition two_float_args :: "nat list FunctionDef" where
  "two_float_args =
     \<lparr>input_arg = [\<lparr>arg_name = ''x'', arg_type = 1\<rparr>, \<lparr>arg_name = ''y'', arg_type = 1\<rparr>],
      arg_attr =
        [(1, [(''_output_shapes'', ListValue [[2, 2]])]),
         (0, [(''_user_specified_name'', OtherValue), (''_output_shapes'', ListValue [[2, 2]])])]\<rparr>"

definition one_float_arg :: "nat list FunctionDef" where
  "one_float_arg =
     \<lparr>input_arg = [\<lparr>arg_name = ''x'', arg_type = 1\<rparr>],
      arg_attr = [(0, [(''_output_shapes'', ListValue [[2, 2]])])]\<rparr>"

text \<open>One parameter and no annotation at all.\<close>

definition no_annotation :: "nat list FunctionDef" where
  "no_annotation =
     \<lparr>input_arg = [\<lparr>arg_name = ''x'', arg_type = 1\<rparr>], arg_attr = []\<rparr>"

text \<open>Two parameters; the annotation of the second has no \<^verbatim>\<open>_output_shapes\<close>.\<close>

definition second_arg_unannotated :: "nat list FunctionDef" where
  "second_arg_unannotated =
     \<lparr>input_arg = [\<lparr>arg_name = ''x'', arg_type = 1\<rparr>, \<lparr>arg_name = ''y'', arg_type = 1\<rparr>],
      arg_attr =
        [(0, [(''_output_shapes'', ListValue [[2, 2]])]),
         (1, [(''_user_specified_name'', OtherValue)])]\<rparr>"

text \<open>
  One parameter and one annotation, keyed 1: the parameter, at index 0, has no annotation.
\<close>

definition misplaced_key :: "nat list FunctionDef" where
  "misplaced_key =
     \<lparr>input_arg = [\<lparr>arg_name = ''x'', arg_type = 1\<rparr>],
      arg_attr = [(1, [(''_output_shapes'', ListValue [[2, 2]])])]\<rparr>"

text \<open>One parameter whose \<^verbatim>\<open>_output_shapes\<close> attribute holds an empty list of shapes.\<close>

definition empty_shape_list :: "nat list FunctionDef" where
  "empty_shape_list =
     \<lparr>input_arg = [\<lparr>arg_name = ''x'', arg_type = 1\<rparr>],
      arg_attr = [(0, [(''_output_shapes'', ListValue [])])]\<rparr>"

text \<open>
  An instance of the parameter \<open>parse\<close> that rejects a negative dimension size, the size
  \<^verbatim>\<open>-1\<close> of a dimension that is not known, and a parameter declared with such a dimension.
\<close>

definition reject_unknown_dims :: "int list \<Rightarrow> Status + nat list" where
  "reject_unknown_dims p =
     (if list_all (\<lambda>d. 0 \<le> d) p then Inr (map nat p)
      else Inl (Status INVALID_ARGUMENT (Text ''Shape is not fully defined'')))"

definition unknown_dim_arg :: "int list FunctionDef" where
  "unknown_dim_arg =
     \<lparr>input_arg = [\<lparr>arg_name = ''x'', arg_type = 1\<rparr>],
      arg_attr = [(0, [(''_output_shapes'', ListValue [[- 1, 2]])])]\<rparr>"

text \<open>
  A function of four parameters for value mode: a constant-foldable one, two resources
  (\<^verbatim>\<open>DT_RESOURCE = 20\<close>) and an ordinary one.
\<close>

definition four_args :: "nat list FunctionDef" where
  "four_args =
     \<lparr>input_arg = [\<lparr>arg_name = ''c'', arg_type = 3\<rparr>, \<lparr>arg_name = ''v'', arg_type = 20\<rparr>,
                   \<lparr>arg_name = ''w'', arg_type = 20\<rparr>, \<lparr>arg_name = ''x'', arg_type = 1\<rparr>],
      arg_attr = []\<rparr>"

text \<open>
  Collaborators that always succeed. A tensor handle and a tensor are numbers, the host copy
  of tensor \<open>n\<close> is \<open>n + 100\<close>; the resolver finds \<open>four_args\<close> under the name \<open>g\<close>, with
  the constant-foldable index 0 and the resource-backed indices 1 and 2, and
  \<open>two_float_args\<close> under any other name; a module is its text; the executable built with
  the embed-IR flag is 1 and carries a proto, the one built without it is 0.
\<close>

definition example_options :: Options where
  "example_options =
     \<lparr>device_ordinal = - 1, device_allocator = 0, alias_passthrough_params = False,
      detailed_logging = False\<rparr>"

definition example_client :: "(nat, nat list, nat) LocalClient" where
  "example_client =
     \<lparr>default_device_ordinal = 0,
      Compile = (\<lambda>c layouts bo. Inr [if xla_embed_ir_in_executable bo then 1 else 0])\<rparr>"

definition example_runtime :: "(nat, nat, nat list, nat list, nat, nat, nat list, nat) Runtime" where
  "example_runtime =
     \<lparr>GetBodyAndConstantsAndResources =
        (\<lambda>d f. if f = ''g'' then Inr (Some \<lparr>fdef = four_args\<rparr>, [0], [1, 2])
               else Inr (Some \<lparr>fdef = two_float_args\<rparr>, [], [])),
      Tensor = (\<lambda>th. Inr th),
      CopyToDevice = (\<lambda>th. Inr (th + 100)),
      dtype = (\<lambda>t. 1),
      tensor_shape = (\<lambda>t. [2, 2]),
      variable_lookup_failure = (\<lambda>inputs is. None),
      lock_failure = (\<lambda>i. None),
      XlaPlatformInfoFromDevice = (\<lambda>d. \<lparr>platform_device_type = device_type d\<rparr>),
      LookupOrCreate = (\<lambda>d p. Inr 0),
      client = (\<lambda>dc. example_client),
      GenerateTfrtTpuCompilerOptions = (\<lambda>dc. example_options),
      GenerateCompilerOptions = (\<lambda>dc d s p has_ref_vars. example_options),
      BuildTensorShape = Inr,
      CompileFunction =
        (\<lambda>opts copts f args.
           Inr \<lparr>computation = 0, xla_input_shapes = map shape args, xla_output_shape = [],
                collective_info = None\<rparr>)\<rparr>"

definition example_api :: "(nat, nat, string, nat, string) XlaApi" where
  "example_api =
     \<lparr>GetProgramShape = (\<lambda>c. Inr 0),
      CreateFromProto = (\<lambda>c ps. Inr ''HloModule f''),
      new_HloPrintOptions = \<lparr>print_metadata = True\<rparr>,
      ToString_with = (\<lambda>m opts. if print_metadata opts then m @ '' metadata'' else m),
      ToString = (\<lambda>m. m),
      ToProto_SerializeAsString = (\<lambda>m. ''proto of '' @ m),
      executable_module = (\<lambda>x. ''HloModule f, optimized''),
      hlo_proto = (\<lambda>x. if x = 1 then Some ''HloProto f'' else None),
      HloProto_SerializeAsString = (\<lambda>h. ''proto of '' @ h),
      RenderGraph = (\<lambda>m. Inr (''digraph '' @ m))\<rparr>"

definition example_result :: "(nat, nat list) CompilationResult" where
  "example_result =
     \<lparr>computation = 0, xla_input_shapes = [[2, 2], [2, 2]], xla_output_shape = [],
      collective_info = None\<rparr>"

definition cpu_device :: Device where
  "cpu_device =
     \<lparr>device_type = DEVICE_CPU, device_name = ''/device:CPU:0'',
      tensorflow_accelerator_device_info = None\<rparr>"


definition gpu_device_without_info :: Device where
  "gpu_device_without_info =
     \<lparr>device_type = DEVICE_GPU, device_name = ''/device:GPU:0'',
      tensorflow_accelerator_device_info = None\<rparr>"

section \<open>The builder of spec mode\<close>

lemma attr_loop_no_key:
  "''_output_shapes'' \<notin> fst ` set attrs \<Longrightarrow>
   attr_loop parse idx attrs h v log = (Ok (h, v), log)"
  by (induction attrs) auto

lemma attr_loop_declared:
  assumes "distinct (map fst attrs)" "annotation_shape parse attrs = Some s"
    "unat idx < length (vstore v)"
  shows "fst (attr_loop parse idx attrs h v log) =
     Ok (True, v\<lparr>vstore := (vstore v)[unat idx := Some s]\<rparr>)"
  using assms
proof (induction attrs arbitrary: h log)
  case Nil
  then show ?case by (simp add: annotation_shape_def)
next
  case (Cons a attrs)
  show ?case
  proof (cases "fst a = ''_output_shapes''")
    case True
    then have nk: "''_output_shapes'' \<notin> fst ` set attrs" using Cons.prems(1) by auto
    obtain av where a: "a = (''_output_shapes'', av)" using True by (cases a) auto
    from Cons.prems(2) a obtain p ps where ps: "list_shape av = p # ps" and p: "parse p = Inr s"
      by (auto simp: annotation_shape_def split: list.splits sum.splits)
    show ?thesis using a ps p Cons.prems(3) nk
      by (simp add: attr_loop_no_key)
  next
    case False
    then have "annotation_shape parse attrs = Some s"
      using Cons.prems(2) by (cases a) (auto simp: annotation_shape_def)
    then show ?thesis using Cons False by simp
  qed
qed

lemma write_slot_length [simp]: "length (vstore (write_slot parse e v)) = length (vstore v)"
  by (simp add: write_slot_def)

lemma fold_write_slot_length [simp]:
  "length (vstore (fold (write_slot parse) es v)) = length (vstore v)"
  by (induction es arbitrary: v) auto

lemma arg_attrs_loop_prefix:
  assumes "\<forall>e \<in> set es1. distinct (map fst (snd e)) \<and> unat (fst e) < length (vstore v) \<and>
             annotation_shape parse (snd e) \<noteq> None"
  shows "\<exists>log'. arg_attrs_loop parse (es1 @ es2) v log =
           arg_attrs_loop parse es2 (fold (write_slot parse) es1 v) log'"
  using assms
proof (induction es1 arbitrary: v log)
  case Nil
  then show ?case by auto
next
  case (Cons e es)
  from Cons.prems obtain s where s: "annotation_shape parse (snd e) = Some s"
    and d: "distinct (map fst (snd e))" and k: "unat (fst e) < length (vstore v)" by auto
  have step: "fst (attr_loop parse (fst e) (snd e) False v log) = Ok (True, write_slot parse e v)"
    using attr_loop_declared [OF d s k] by (simp add: write_slot_def s)
  obtain log1 where al:
    "attr_loop parse (fst e) (snd e) False v log = (Ok (True, write_slot parse e v), log1)"
    using step by (cases "attr_loop parse (fst e) (snd e) False v log") auto
  have "\<forall>e' \<in> set es. distinct (map fst (snd e')) \<and>
      unat (fst e') < length (vstore (write_slot parse e v)) \<and>
      annotation_shape parse (snd e') \<noteq> None"
    using Cons.prems by simp
  from Cons.IH [OF this, of log1] show ?case using al by simp
qed

lemma arg_attrs_loop_declared:
  assumes "\<forall>e \<in> set es. distinct (map fst (snd e)) \<and> unat (fst e) < length (vstore v) \<and>
             annotation_shape parse (snd e) \<noteq> None"
  shows "fst (arg_attrs_loop parse es v log) = Ok (fold (write_slot parse) es v)"
  using arg_attrs_loop_prefix [OF assms, of "[]" log] by auto

lemma fold_write_slot_other:
  "k \<notin> fst ` set es \<Longrightarrow> vstore (fold (write_slot parse) es v) ! unat k = vstore v ! unat k"
proof (induction es arbitrary: v)
  case Nil
  then show ?case by simp
next
  case (Cons e es)
  then have "fst e \<noteq> k" by auto
  then have "unat (fst e) \<noteq> unat k" by (simp add: word_unat_eq_iff)
  then show ?case using Cons by (simp add: write_slot_def)
qed

lemma fold_write_slot_key:
  "distinct (map fst es) \<Longrightarrow> e \<in> set es \<Longrightarrow> unat (fst e) < length (vstore v) \<Longrightarrow>
   vstore (fold (write_slot parse) es v) ! unat (fst e) = annotation_shape parse (snd e)"
proof (induction es arbitrary: v)
  case Nil
  then show ?case by simp
next
  case (Cons x es)
  show ?case
  proof (cases "e = x")
    case True
    then have "fst e \<notin> fst ` set es" using Cons.prems(1) by auto
    then show ?thesis using True Cons.prems(3)
      by (simp add: fold_write_slot_other) (simp add: write_slot_def)
  next
    case False
    then show ?thesis using Cons by auto
  qed
qed

lemma args_loop_filled:
  assumes "length ss = length as"
    "\<forall>i < length as. input_num + i < length (vstore v) \<and> vstore v ! (input_num + i) = Some (ss ! i)"
  shows "fst (args_loop as input_num v log) =
     Ok (map (\<lambda>(a, s). \<lparr>kind = kParameter, type = arg_type a, shape = s, name = arg_name a\<rparr>) (zip as ss))"
  using assms
proof (induction as arbitrary: ss input_num log)
  case Nil
  then show ?case by simp
next
  case (Cons a as)
  then obtain s ss' where ss: "ss = s # ss'" by (cases ss) auto
  have h0: "input_num < length (vstore v)" "vstore v ! input_num = Some s"
    using Cons.prems(2) ss by force+
  have "\<forall>i < length as. Suc input_num + i < length (vstore v) \<and> vstore v ! (Suc input_num + i) = Some (ss' ! i)"
    using Cons.prems(2) ss by fastforce
  from Cons.IH [OF _ this, of "log @ [ShapesRead input_num (vsize v)]"] Cons.prems(1) ss
  have ih: "fst (args_loop as (Suc input_num) v (log @ [ShapesRead input_num (vsize v)])) =
     Ok (map (\<lambda>(a, s). \<lparr>kind = kParameter, type = arg_type a, shape = s, name = arg_name a\<rparr>) (zip as ss'))"
    by simp
  show ?case using h0 ih ss
    by (cases "args_loop as (Suc input_num) v (log @ [ShapesRead input_num (vsize v)])") simp
qed

lemma unat_of_nat_index:
  assumes "i < 2 ^ 31"
  shows "unat (of_nat i :: 32 word) = i"
proof -
  have "(2::nat) ^ 31 \<le> 2 ^ LENGTH(32)" by (rule power_increasing) simp_all
  then have "i < 2 ^ LENGTH(32)" using assms by (rule less_le_trans [rotated])
  then show ?thesis by (rule of_nat_inverse [OF refl])
qed

lemma keys_are_argument_indices:
  fixes es :: "(32 word \<times> 'a) list"
  assumes d: "distinct (map fst es)" and n: "length es = n" and b: "n < 2 ^ 31"
    and all: "\<forall>i < n. map_of es (of_nat i) \<noteq> None"
    and e: "e \<in> set es"
  shows "unat (fst e) < n"
proof -
  let ?S = "(of_nat :: nat \<Rightarrow> 32 word) ` {..<n}"
  let ?K = "fst ` set es"
  have inj: "inj_on (of_nat :: nat \<Rightarrow> 32 word) {..<n}"
  proof (rule inj_onI)
    fix x y assume "x \<in> {..<n}" "y \<in> {..<n}" and eq: "(of_nat x :: 32 word) = of_nat y"
    then have "x < 2 ^ 31" "y < 2 ^ 31" using b by auto
    then have ux: "unat (of_nat x :: 32 word) = x" and uy: "unat (of_nat y :: 32 word) = y"
      by (simp_all only: unat_of_nat_index)
    have "unat (of_nat x :: 32 word) = unat (of_nat y :: 32 word)" by (simp only: eq)
    then show "x = y" by (simp only: ux uy)
  qed
  have cS: "card ?S = n" using inj by (simp add: card_image)
  have cK: "card ?K = n" using d n by (metis distinct_card length_map set_map)
  have sub: "?S \<subseteq> ?K"
  proof
    fix k assume "k \<in> ?S"
    then obtain i where "i < n" "k = of_nat i" by auto
    then have "map_of es k \<noteq> None" using all by simp
    then show "k \<in> ?K" by (simp add: map_of_eq_None_iff)
  qed
  have "?S = ?K" using sub cS cK by (simp add: card_subset_eq)
  then have "fst e \<in> ?S" using e by auto
  then obtain i where i: "i < n" "fst e = of_nat i" by auto
  moreover have "i < 2 ^ 31" using i b by simp
  ultimately have "unat (fst e) = i" by (simp only: unat_of_nat_index)
  then show ?thesis using i by simp
qed

lemma arg_attrs_loop_missing:
  assumes "\<exists>e \<in> set es. ''_output_shapes'' \<notin> fst ` set (snd e)"
  shows "fst (arg_attrs_loop parse es v log) \<noteq> Ok v'"
  using assms
proof (induction es arbitrary: v log)
  case Nil
  then show ?case by simp
next
  case (Cons e es)
  show ?case
  proof (cases "''_output_shapes'' \<in> fst ` set (snd e)")
    case False
    then show ?thesis by (simp add: attr_loop_no_key)
  next
    case True
    then have rest: "\<exists>e \<in> set es. ''_output_shapes'' \<notin> fst ` set (snd e)"
      using Cons.prems by auto
    show ?thesis
    proof (cases "attr_loop parse (fst e) (snd e) False v log")
      case (Pair r log')
      then show ?thesis using Cons.IH [OF rest]
        by (cases r) (auto split: if_splits)
    qed
  qed
qed

lemma attr_loop_rejected:
  assumes "distinct (map fst attrs)" "map_of attrs ''_output_shapes'' = Some av"
    "list_shape av = p # ps" "parse p = Inl st" "unat idx < length (vstore v)"
  shows "fst (attr_loop parse idx attrs h v log) = Error st"
  using assms(1,2)
proof (induction attrs arbitrary: h log)
  case Nil
  then show ?case by simp
next
  case (Cons a attrs)
  show ?case
  proof (cases "fst a = ''_output_shapes''")
    case True
    then have "snd a = av" using Cons.prems(2) by (cases a) simp
    then show ?thesis using True assms(3,4,5) by (simp add: Let_def)
  next
    case False
    then have "map_of attrs ''_output_shapes'' = Some av"
      using Cons.prems(2) by (cases a) (auto split: if_splits)
    then show ?thesis using Cons False by simp
  qed
qed

text \<open>
  C1 (as amended). For a function whose annotations have distinct keys and distinct
  attribute names, as many annotations as parameters, and fewer than \<open>2 ^ 31\<close> parameters.
  When every parameter index has an annotation that declares a shape (the attribute
  \<^verbatim>\<open>_output_shapes\<close> with a list that is not empty and a first shape the parser accepts), the
  builder of spec mode returns one descriptor per parameter, in order, of kind Parameter,
  with the type and the name of the parameter and the declared shape. When the parser
  rejects the first shape of an annotation whose key is below the arity, and every
  annotation iterated before it declares a shape under a key below the arity, the builder
  returns the parser's status. Both results are those of the unchecked accesses to the
  reserved storage, which lie beyond the size of the vector (C3).
\<close>

theorem spec_mode_descriptors:
  fixes f :: "'p FunctionDef" and parse :: "'p \<Rightarrow> Status + 's"
  assumes wf: "wf_FunctionDef f"
    and small: "length (input_arg f) < 2 ^ 31"
    and count: "length (arg_attr f) = length (input_arg f)"
  shows
    "(map (declared_shape parse f) [0..<length (input_arg f)] = map Some ss \<longrightarrow>
        BuildXlaCompilerArgumentFromFuncBody parse (Some \<lparr>fdef = f\<rparr>) =
          Ok (map (\<lambda>(a, s). \<lparr>kind = kParameter, type = arg_type a, shape = s, name = arg_name a\<rparr>)
                (zip (input_arg f) ss))) \<and>
     (arg_attr f = es1 @ e # es2 \<and>
      list_all (\<lambda>e'. unat (fst e') < length (input_arg f) \<and>
                  annotation_shape parse (snd e') \<noteq> None) es1 \<and>
      unat (fst e) < length (input_arg f) \<and>
      map_of (snd e) ''_output_shapes'' = Some av \<and> list_shape av = p # ps \<and>
      parse p = Inl st \<longrightarrow>
        BuildXlaCompilerArgumentFromFuncBody parse (Some \<lparr>fdef = f\<rparr>) = Error st)"
proof -
  let ?n = "length (input_arg f)"
  let ?es = "arg_attr f"
  let ?v0 = "reserve ?n :: 's vector"
  have d: "distinct (map fst ?es)" using wf by (simp add: wf_FunctionDef_def)
  have inner: "distinct (map fst (snd x))" if "x \<in> set ?es" for x
    using wf that by (auto simp: wf_FunctionDef_def list_all_iff)
  have returned: "BuildXlaCompilerArgumentFromFuncBody parse (Some \<lparr>fdef = f\<rparr>) =
          Ok (map (\<lambda>(a, s). \<lparr>kind = kParameter, type = arg_type a, shape = s, name = arg_name a\<rparr>)
                (zip (input_arg f) ss))"
    if decl: "map (declared_shape parse f) [0..<?n] = map Some ss"
  proof -
    have len_ss: "length ss = ?n" using decl by (metis length_map length_upt minus_nat.diff_0)
    have decl_i: "declared_shape parse f i = Some (ss ! i)" if "i < ?n" for i
    proof -
      have "map (declared_shape parse f) [0..<?n] ! i = map Some ss ! i" using decl by simp
      then show ?thesis using that len_ss by simp
    qed
    have all: "\<forall>i < ?n. map_of ?es (of_nat i) \<noteq> None"
    proof (intro allI impI)
      fix i assume "i < ?n"
      then have "declared_shape parse f i \<noteq> None" using decl_i by simp
      then show "map_of ?es (of_nat i) \<noteq> None"
        by (auto simp: declared_shape_def split: option.splits)
    qed
    have key: "unat (fst x) < ?n" if "x \<in> set ?es" for x
      using keys_are_argument_indices [OF d count small all that] .
    have entry: "annotation_shape parse (snd x) = Some (ss ! unat (fst x))" if "x \<in> set ?es" for x
    proof -
      have "map_of ?es (fst x) = Some (snd x)" using d that by (cases x) simp
      moreover have "of_nat (unat (fst x)) = fst x" by simp
      ultimately have "declared_shape parse f (unat (fst x)) = annotation_shape parse (snd x)"
        by (simp add: declared_shape_def)
      then show ?thesis using decl_i [OF key [OF that]] by simp
    qed
    have pre: "\<forall>x \<in> set ?es. distinct (map fst (snd x)) \<and> unat (fst x) < length (vstore ?v0) \<and>
        annotation_shape parse (snd x) \<noteq> None"
      using inner key entry by (auto simp: reserve_def)
    define v where "v = fold (write_slot parse) ?es ?v0"
    obtain log where loop: "arg_attrs_loop parse ?es ?v0 [] = (Ok v, log)"
      using arg_attrs_loop_declared [OF pre, of "[]"] unfolding v_def
      by (cases "arg_attrs_loop parse ?es ?v0 []") auto
    have lenv: "length (vstore v) = ?n" by (simp add: v_def reserve_def)
    have slot: "vstore v ! i = Some (ss ! i)" if "i < ?n" for i
    proof -
      from all that obtain attrs where "map_of ?es (of_nat i) = Some attrs" by auto
      then have mem: "(of_nat i, attrs) \<in> set ?es" by (rule map_of_SomeD)
      have ui: "unat (of_nat i :: 32 word) = i" using that small by (intro unat_of_nat_index) simp
      have "vstore v ! unat (fst (of_nat i :: 32 word, attrs)) =
          annotation_shape parse (snd (of_nat i :: 32 word, attrs))"
        unfolding v_def using mem that ui
        by (intro fold_write_slot_key [OF d]) (simp_all add: reserve_def)
      then show ?thesis using entry [OF mem] ui by simp
    qed
    have "fst (args_loop (input_arg f) 0 v log) =
       Ok (map (\<lambda>(a, s). \<lparr>kind = kParameter, type = arg_type a, shape = s, name = arg_name a\<rparr>)
             (zip (input_arg f) ss))"
      using len_ss lenv slot by (intro args_loop_filled) simp_all
    then show ?thesis
      using count loop
      by (simp add: BuildXlaCompilerArgumentFromFuncBody_def
          BuildXlaCompilerArgumentFromFuncBody_log_def)
  qed
  have rejected: "BuildXlaCompilerArgumentFromFuncBody parse (Some \<lparr>fdef = f\<rparr>) = Error st"
    if a: "arg_attr f = es1 @ e # es2 \<and>
      list_all (\<lambda>e'. unat (fst e') < length (input_arg f) \<and>
                  annotation_shape parse (snd e') \<noteq> None) es1 \<and>
      unat (fst e) < length (input_arg f) \<and>
      map_of (snd e) ''_output_shapes'' = Some av \<and> list_shape av = p # ps \<and>
      parse p = Inl st"
  proof -
    have mem: "set es1 \<subseteq> set ?es" "e \<in> set ?es" using a by auto
    have pre: "\<forall>x \<in> set es1. distinct (map fst (snd x)) \<and> unat (fst x) < length (vstore ?v0) \<and>
        annotation_shape parse (snd x) \<noteq> None"
      using a inner mem(1) by (auto simp: list_all_iff reserve_def)
    obtain log' where cont: "arg_attrs_loop parse (es1 @ e # es2) ?v0 [] =
        arg_attrs_loop parse (e # es2) (fold (write_slot parse) es1 ?v0) log'"
      using arg_attrs_loop_prefix [OF pre, of "e # es2" "[]"] by auto
    have cap: "unat (fst e) < length (vstore (fold (write_slot parse) es1 ?v0))"
      using a by (simp add: reserve_def)
    have "fst (attr_loop parse (fst e) (snd e) False (fold (write_slot parse) es1 ?v0) log') =
        Error st"
      using a inner [OF mem(2)] cap by (intro attr_loop_rejected [where av = av and p = p and ps = ps]) simp_all
    then have "fst (arg_attrs_loop parse (e # es2) (fold (write_slot parse) es1 ?v0) log') =
        Error st"
      by (cases "attr_loop parse (fst e) (snd e) False (fold (write_slot parse) es1 ?v0) log'")
         simp
    then have "fst (arg_attrs_loop parse ?es ?v0 []) = Error st" using a cont by simp
    then show ?thesis
      using count
      by (cases "arg_attrs_loop parse ?es ?v0 []")
         (simp add: BuildXlaCompilerArgumentFromFuncBody_def
            BuildXlaCompilerArgumentFromFuncBody_log_def)
  qed
  show ?thesis using returned rejected by blast
qed

lemma upt_two: "[0..<2] = [0, Suc 0]"
  by (simp add: upt_rec)

theorem spec_mode_descriptors_witness:
  "wf_FunctionDef two_float_args \<and> length (input_arg two_float_args) < 2 ^ 31 \<and>
   length (arg_attr two_float_args) = length (input_arg two_float_args) \<and>
   map (declared_shape Inr two_float_args) [0..<length (input_arg two_float_args)] =
     map Some [[2, 2], [2, 2]] \<and>
   BuildXlaCompilerArgumentFromFuncBody Inr (Some \<lparr>fdef = two_float_args\<rparr>) =
     Ok [\<lparr>kind = kParameter, type = 1, shape = [2, 2], name = ''x''\<rparr>,
         \<lparr>kind = kParameter, type = 1, shape = [2, 2], name = ''y''\<rparr>] \<and>
   wf_FunctionDef unknown_dim_arg \<and> length (input_arg unknown_dim_arg) < 2 ^ 31 \<and>
   length (arg_attr unknown_dim_arg) = length (input_arg unknown_dim_arg) \<and>
   arg_attr unknown_dim_arg = [] @ (0, [(''_output_shapes'', ListValue [[- 1, 2]])]) # [] \<and>
   unat (fst (0 :: 32 word, [(''_output_shapes'', ListValue [[- 1, 2 :: int]])]))
     < length (input_arg unknown_dim_arg) \<and>
   map_of (snd (0 :: 32 word, [(''_output_shapes'', ListValue [[- 1, 2 :: int]])]))
     ''_output_shapes'' = Some (ListValue [[- 1, 2]]) \<and>
   list_shape (ListValue [[- 1, 2 :: int]]) = [- 1, 2] # [] \<and>
   reject_unknown_dims [- 1, 2] = Inl (Status INVALID_ARGUMENT (Text ''Shape is not fully defined'')) \<and>
   BuildXlaCompilerArgumentFromFuncBody reject_unknown_dims (Some \<lparr>fdef = unknown_dim_arg\<rparr>) =
     Error (Status INVALID_ARGUMENT (Text ''Shape is not fully defined''))"
proof -
  have wf: "wf_FunctionDef two_float_args"
    by (simp add: wf_FunctionDef_def two_float_args_def)
  have small: "length (input_arg two_float_args) < 2 ^ 31"
    by (simp add: two_float_args_def)
  have count: "length (arg_attr two_float_args) = length (input_arg two_float_args)"
    by (simp add: two_float_args_def)
  have decl: "map (declared_shape Inr two_float_args) [0..<length (input_arg two_float_args)] =
     map Some [[2, 2], [2, 2]]"
    by (simp add: two_float_args_def declared_shape_def annotation_shape_def upt_two)
  have ok: "BuildXlaCompilerArgumentFromFuncBody Inr (Some \<lparr>fdef = two_float_args\<rparr>) =
     Ok [\<lparr>kind = kParameter, type = 1, shape = [2, 2], name = ''x''\<rparr>,
         \<lparr>kind = kParameter, type = 1, shape = [2, 2], name = ''y''\<rparr>]"
    using spec_mode_descriptors [OF wf small count, where parse = Inr and ss = "[[2, 2], [2, 2]]",
        THEN conjunct1] decl
    by (simp add: two_float_args_def)
  have wf': "wf_FunctionDef unknown_dim_arg"
    by (simp add: wf_FunctionDef_def unknown_dim_arg_def)
  have small': "length (input_arg unknown_dim_arg) < 2 ^ 31"
    by (simp add: unknown_dim_arg_def)
  have count': "length (arg_attr unknown_dim_arg) = length (input_arg unknown_dim_arg)"
    by (simp add: unknown_dim_arg_def)
  have h: "arg_attr unknown_dim_arg = [] @ (0, [(''_output_shapes'', ListValue [[- 1, 2]])]) # [] \<and>
   list_all (\<lambda>e'. unat (fst e') < length (input_arg unknown_dim_arg) \<and>
               annotation_shape reject_unknown_dims (snd e') \<noteq> (None :: nat list option)) [] \<and>
   unat (fst (0 :: 32 word, [(''_output_shapes'', ListValue [[- 1, 2 :: int]])]))
     < length (input_arg unknown_dim_arg) \<and>
   map_of (snd (0 :: 32 word, [(''_output_shapes'', ListValue [[- 1, 2 :: int]])]))
     ''_output_shapes'' = Some (ListValue [[- 1, 2]]) \<and>
   list_shape (ListValue [[- 1, 2 :: int]]) = [- 1, 2] # [] \<and>
   reject_unknown_dims [- 1, 2] = Inl (Status INVALID_ARGUMENT (Text ''Shape is not fully defined''))"
    by (simp add: unknown_dim_arg_def reject_unknown_dims_def)
  have err: "BuildXlaCompilerArgumentFromFuncBody reject_unknown_dims
      (Some \<lparr>fdef = unknown_dim_arg\<rparr>) =
     Error (Status INVALID_ARGUMENT (Text ''Shape is not fully defined''))"
    using spec_mode_descriptors [OF wf' small' count', where parse = reject_unknown_dims,
        THEN conjunct2] h
    by blast
  show ?thesis using wf small count decl ok wf' small' count' h err by simp
qed

text \<open>
  C1 as stated fails: each function below has as many annotations as parameters and the
  attribute \<^verbatim>\<open>_output_shapes\<close> in every annotation. With a shape the parser rejects the
  builder returns the parser's status; with an empty list of shapes it reads the element 0
  that is not there.
\<close>

theorem spec_mode_descriptors_counterexample:
  "length (arg_attr unknown_dim_arg) = length (input_arg unknown_dim_arg) \<and>
   list_all (\<lambda>e. ''_output_shapes'' \<in> fst ` set (snd e)) (arg_attr unknown_dim_arg) \<and>
   BuildXlaCompilerArgumentFromFuncBody reject_unknown_dims (Some \<lparr>fdef = unknown_dim_arg\<rparr>) =
     Error (Status INVALID_ARGUMENT (Text ''Shape is not fully defined'')) \<and>
   length (arg_attr empty_shape_list) = length (input_arg empty_shape_list) \<and>
   list_all (\<lambda>e. ''_output_shapes'' \<in> fst ` set (snd e)) (arg_attr empty_shape_list) \<and>
   BuildXlaCompilerArgumentFromFuncBody Inr (Some \<lparr>fdef = empty_shape_list\<rparr>) =
     Undefined OutOfRange"
  by (simp add: unknown_dim_arg_def reject_unknown_dims_def empty_shape_list_def
      BuildXlaCompilerArgumentFromFuncBody_def BuildXlaCompilerArgumentFromFuncBody_log_def
      reserve_def)

text \<open>
  C2 (as amended). When the number of annotations differs from the number of parameters the
  builder fails with InvalidArgument. When an annotation has no \<^verbatim>\<open>_output_shapes\<close>
  attribute the builder never returns descriptors; and when moreover keys and attribute
  names are distinct, the numbers agree and every annotation iterated before that one
  declares a shape under a key below the arity, the builder fails with the status of
  \<^verbatim>\<open>TF_RET_CHECK\<close>, whose code is Internal. Nothing is said of a function whose numbers
  agree and whose annotations all hold the attribute while a parameter index is not among
  their keys: the builder makes no check for it.
\<close>

theorem spec_mode_incomplete_annotations:
  fixes f :: "'p FunctionDef" and parse :: "'p \<Rightarrow> Status + 's"
  shows
  "(length (arg_attr f) \<noteq> length (input_arg f) \<longrightarrow>
      BuildXlaCompilerArgumentFromFuncBody parse (Some \<lparr>fdef = f\<rparr>) =
        Error (Status INVALID_ARGUMENT (Text outside_variable_message))) \<and>
   ((\<exists>e \<in> set (arg_attr f). ''_output_shapes'' \<notin> fst ` set (snd e)) \<longrightarrow>
      (\<forall>args. BuildXlaCompilerArgumentFromFuncBody parse (Some \<lparr>fdef = f\<rparr>) \<noteq> Ok args)) \<and>
   (wf_FunctionDef f \<and> length (arg_attr f) = length (input_arg f) \<and>
    arg_attr f = es1 @ e # es2 \<and>
    list_all (\<lambda>e'. unat (fst e') < length (input_arg f) \<and>
                annotation_shape parse (snd e') \<noteq> None) es1 \<and>
    ''_output_shapes'' \<notin> fst ` set (snd e) \<longrightarrow>
      (\<exists>msg. BuildXlaCompilerArgumentFromFuncBody parse (Some \<lparr>fdef = f\<rparr>) =
         Error (Status INTERNAL msg)))"
proof -
  have 1: "length (arg_attr f) \<noteq> length (input_arg f) \<longrightarrow>
      BuildXlaCompilerArgumentFromFuncBody parse (Some \<lparr>fdef = f\<rparr>) =
        Error (Status INVALID_ARGUMENT (Text outside_variable_message))"
    by (simp add: BuildXlaCompilerArgumentFromFuncBody_def
        BuildXlaCompilerArgumentFromFuncBody_log_def)
  have 2: "(\<exists>e \<in> set (arg_attr f). ''_output_shapes'' \<notin> fst ` set (snd e)) \<longrightarrow>
      (\<forall>args. BuildXlaCompilerArgumentFromFuncBody parse (Some \<lparr>fdef = f\<rparr>) \<noteq> Ok args)"
  proof (intro impI allI)
    fix args
    assume miss: "\<exists>e \<in> set (arg_attr f). ''_output_shapes'' \<notin> fst ` set (snd e)"
    show "BuildXlaCompilerArgumentFromFuncBody parse (Some \<lparr>fdef = f\<rparr>) \<noteq> Ok args"
    proof (cases "length (arg_attr f) = length (input_arg f)")
      case False
      then show ?thesis
        by (simp add: BuildXlaCompilerArgumentFromFuncBody_def
            BuildXlaCompilerArgumentFromFuncBody_log_def)
    next
      case True
      let ?r = "arg_attrs_loop parse (arg_attr f) (reserve (length (input_arg f)) :: 's vector) []"
      have "\<And>v'. fst ?r \<noteq> Ok v'" using arg_attrs_loop_missing [OF miss] .
      then show ?thesis using True
        by (cases ?r; cases "fst ?r")
           (auto simp: BuildXlaCompilerArgumentFromFuncBody_def
              BuildXlaCompilerArgumentFromFuncBody_log_def)
    qed
  qed
  have 3: "wf_FunctionDef f \<and> length (arg_attr f) = length (input_arg f) \<and>
    arg_attr f = es1 @ e # es2 \<and>
    list_all (\<lambda>e'. unat (fst e') < length (input_arg f) \<and>
                annotation_shape parse (snd e') \<noteq> None) es1 \<and>
    ''_output_shapes'' \<notin> fst ` set (snd e) \<longrightarrow>
      (\<exists>msg. BuildXlaCompilerArgumentFromFuncBody parse (Some \<lparr>fdef = f\<rparr>) =
         Error (Status INTERNAL msg))"
  proof
    assume a: "wf_FunctionDef f \<and> length (arg_attr f) = length (input_arg f) \<and>
      arg_attr f = es1 @ e # es2 \<and>
      list_all (\<lambda>e'. unat (fst e') < length (input_arg f) \<and>
                  annotation_shape parse (snd e') \<noteq> None) es1 \<and>
      ''_output_shapes'' \<notin> fst ` set (snd e)"
    let ?v0 = "reserve (length (input_arg f)) :: 's vector"
    have inner: "distinct (map fst (snd x))" if "x \<in> set es1" for x
      using a that by (auto simp: wf_FunctionDef_def list_all_iff)
    have pre: "\<forall>e' \<in> set es1. distinct (map fst (snd e')) \<and> unat (fst e') < length (vstore ?v0) \<and>
               annotation_shape parse (snd e') \<noteq> None"
      using a inner by (auto simp: list_all_iff reserve_def)
    obtain log' where "arg_attrs_loop parse (es1 @ e # es2) ?v0 [] =
        arg_attrs_loop parse (e # es2) (fold (write_slot parse) es1 ?v0) log'"
      using arg_attrs_loop_prefix [OF pre, of "e # es2" "[]"] by auto
    then have "fst (arg_attrs_loop parse (es1 @ e # es2) ?v0 []) =
          Error (RET_CHECK_failure ''has_function_input_shape'')"
      using a by (simp add: attr_loop_no_key)
    then have "BuildXlaCompilerArgumentFromFuncBody parse (Some \<lparr>fdef = f\<rparr>) =
          Error (Status INTERNAL (RetCheckText ''has_function_input_shape''))"
      using a
      by (cases "arg_attrs_loop parse (es1 @ e # es2) ?v0 []")
         (auto simp: BuildXlaCompilerArgumentFromFuncBody_def
            BuildXlaCompilerArgumentFromFuncBody_log_def RET_CHECK_failure_def)
    then show "\<exists>msg. BuildXlaCompilerArgumentFromFuncBody parse (Some \<lparr>fdef = f\<rparr>) =
         Error (Status INTERNAL msg)" by blast
  qed
  show ?thesis by (rule conjI [OF 1 conjI [OF 2 3]])
qed

theorem spec_mode_incomplete_annotations_witness:
  "length (arg_attr no_annotation) \<noteq> length (input_arg no_annotation) \<and>
   BuildXlaCompilerArgumentFromFuncBody Inr (Some \<lparr>fdef = no_annotation\<rparr>) =
     Error (Status INVALID_ARGUMENT (Text outside_variable_message)) \<and>
   (\<exists>e \<in> set (arg_attr second_arg_unannotated). ''_output_shapes'' \<notin> fst ` set (snd e)) \<and>
   (\<forall>args. BuildXlaCompilerArgumentFromFuncBody Inr (Some \<lparr>fdef = second_arg_unannotated\<rparr>)
      \<noteq> Ok args) \<and>
   wf_FunctionDef second_arg_unannotated \<and>
   length (arg_attr second_arg_unannotated) = length (input_arg second_arg_unannotated) \<and>
   arg_attr second_arg_unannotated =
     [(0, [(''_output_shapes'', ListValue [[2, 2]])])] @
     (1, [(''_user_specified_name'', OtherValue)]) # [] \<and>
   list_all (\<lambda>e'. unat (fst e') < length (input_arg second_arg_unannotated) \<and>
               annotation_shape Inr (snd e') \<noteq> (None :: nat list option))
     [(0, [(''_output_shapes'', ListValue [[2, 2]])])] \<and>
   ''_output_shapes'' \<notin> fst ` set (snd (1 :: 32 word, [(''_user_specified_name'', OtherValue :: nat list AttrValue)])) \<and>
   (\<exists>msg. BuildXlaCompilerArgumentFromFuncBody Inr (Some \<lparr>fdef = second_arg_unannotated\<rparr>) =
      Error (Status INTERNAL msg))"
proof -
  have h1: "length (arg_attr no_annotation) \<noteq> length (input_arg no_annotation)"
    by (simp add: no_annotation_def)
  have h2: "\<exists>e \<in> set (arg_attr second_arg_unannotated). ''_output_shapes'' \<notin> fst ` set (snd e)"
    by (simp add: second_arg_unannotated_def)
  have h3: "wf_FunctionDef second_arg_unannotated \<and>
   length (arg_attr second_arg_unannotated) = length (input_arg second_arg_unannotated) \<and>
   arg_attr second_arg_unannotated =
     [(0, [(''_output_shapes'', ListValue [[2, 2]])])] @
     (1, [(''_user_specified_name'', OtherValue)]) # [] \<and>
   list_all (\<lambda>e'. unat (fst e') < length (input_arg second_arg_unannotated) \<and>
               annotation_shape Inr (snd e') \<noteq> (None :: nat list option))
     [(0, [(''_output_shapes'', ListValue [[2, 2]])])] \<and>
   ''_output_shapes'' \<notin> fst ` set (snd (1 :: 32 word, [(''_user_specified_name'', OtherValue :: nat list AttrValue)]))"
    by (simp add: second_arg_unannotated_def annotation_shape_def wf_FunctionDef_def)
  note a = spec_mode_incomplete_annotations [of no_annotation Inr "[]" "(0, [])" "[]"]
  note b = spec_mode_incomplete_annotations [of second_arg_unannotated Inr
      "[(0, [(''_output_shapes'', ListValue [[2, 2]])])]"
      "(1, [(''_user_specified_name'', OtherValue)])" "[]"]
  from a h1 have c1: "BuildXlaCompilerArgumentFromFuncBody Inr (Some \<lparr>fdef = no_annotation\<rparr>) =
     (Error (Status INVALID_ARGUMENT (Text outside_variable_message)) :: nat list Argument list outcome)"
    by blast
  from b h2 have c2: "\<forall>args :: nat list Argument list.
      BuildXlaCompilerArgumentFromFuncBody Inr (Some \<lparr>fdef = second_arg_unannotated\<rparr>) \<noteq> Ok args"
    by blast
  from b h3 have c3: "\<exists>msg. BuildXlaCompilerArgumentFromFuncBody Inr
      (Some \<lparr>fdef = second_arg_unannotated\<rparr>) =
     (Error (Status INTERNAL msg) :: nat list Argument list outcome)" by blast
  show ?thesis using h1 h2 h3 c1 c2 c3 by blast
qed

text \<open>
  C2 as stated fails twice. In \<open>second_arg_unannotated\<close> the annotation of the second
  parameter has no \<^verbatim>\<open>_output_shapes\<close> attribute and the numbers of annotations and
  parameters agree: the builder fails with the status of \<^verbatim>\<open>TF_RET_CHECK\<close>, of code Internal,
  not InvalidArgument. In \<open>misplaced_key\<close> the numbers agree and the only parameter, at index
  0, has no annotation keyed 0: the builder does not fail with InvalidArgument, it writes
  outside the storage it reserved.
\<close>

theorem spec_mode_incomplete_annotations_counterexample:
  "length (arg_attr second_arg_unannotated) = length (input_arg second_arg_unannotated) \<and>
   map_of (snd (arg_attr second_arg_unannotated ! 1)) ''_output_shapes'' = None \<and>
   BuildXlaCompilerArgumentFromFuncBody Inr (Some \<lparr>fdef = second_arg_unannotated\<rparr>) =
     Error (RET_CHECK_failure ''has_function_input_shape'') \<and>
   code (RET_CHECK_failure ''has_function_input_shape'') = INTERNAL \<and>
   length (arg_attr misplaced_key) = length (input_arg misplaced_key) \<and>
   map_of (arg_attr misplaced_key) 0 = None \<and>
   BuildXlaCompilerArgumentFromFuncBody Inr (Some \<lparr>fdef = misplaced_key\<rparr>) =
     Undefined OutOfRange"
  by (simp add: second_arg_unannotated_def misplaced_key_def
      BuildXlaCompilerArgumentFromFuncBody_def BuildXlaCompilerArgumentFromFuncBody_log_def
      reserve_def RET_CHECK_failure_def)

text \<open>
  C3 fails on the code. For a function with one parameter and its annotation the builder
  reserves storage for \<^verbatim>\<open>shapes\<close> and leaves its size at 0: the write of the parsed shape
  at index 0 and the later read at index 0 are both made at size 0.
\<close>

theorem shapes_accessed_beyond_size:
  "BuildXlaCompilerArgumentFromFuncBody_log Inr (Some \<lparr>fdef = one_float_arg\<rparr>) =
     (Ok [\<lparr>kind = kParameter, type = 1, shape = [2, 2], name = ''x''\<rparr>],
      [ShapeListRead 0 1, ShapesWrite 0 0, ShapesRead 0 0]) \<and>
   \<not> list_all in_bounds
       (snd (BuildXlaCompilerArgumentFromFuncBody_log Inr (Some \<lparr>fdef = one_float_arg\<rparr>)))"
  by (simp add: one_float_arg_def BuildXlaCompilerArgumentFromFuncBody_log_def reserve_def)

section \<open>Sequencing\<close>

lemma snd_call [simp]: "snd (call evs r) = evs"
  by (simp add: call_def split: sum.splits)

lemma fst_call_Inr [simp]: "fst (call evs (Inr a)) = Ok a"
  by (simp add: call_def)

lemma fst_call_Inl [simp]: "fst (call evs (Inl st)) = Error st"
  by (simp add: call_def)

lemma fst_call_Ok [simp]: "fst (call evs r) = Ok a \<longleftrightarrow> r = Inr a"
  by (cases r) (simp_all add: call_def)

lemma snd_and_then:
  "snd (and_then r k) = snd r @ (case fst r of Ok a \<Rightarrow> snd (k a) | Error st \<Rightarrow> [] | Undefined u \<Rightarrow> [])"
  by (simp add: and_then_def split: outcome.splits)

lemma fst_and_then:
  "fst (and_then r k) = (case fst r of Ok a \<Rightarrow> fst (k a) | Error st \<Rightarrow> Error st | Undefined u \<Rightarrow> Undefined u)"
  by (simp add: and_then_def split: outcome.splits)

lemma in_and_then:
  "e \<in> set (snd (and_then r k)) \<longleftrightarrow>
     e \<in> set (snd r) \<or> (\<exists>a. fst r = Ok a \<and> e \<in> set (snd (k a)))"
  by (auto simp: snd_and_then split: outcome.splits)

lemma snd_at_exit [simp]: "snd (at_exit evs r) = snd r @ evs"
  by (simp add: at_exit_def)

lemma fst_at_exit [simp]: "fst (at_exit evs r) = fst r"
  by (simp add: at_exit_def)

section \<open>The events of each part of a call\<close>

lemma BuildExecutable_trace:
  "snd (BuildExecutable local_client result options b) =
     [BuildExecutableCalled b, ClientCompileCalled b]"
  by (simp add: BuildExecutable_def executable_build_options_def Let_def split: sum.splits)

lemma BuildHLOString_trace:
  "snd (BuildHLOString api stage result local_client options) =
     (if stage = HLO \<or> stage = HLO_NO_METADATA \<or> stage = HLO_SERIALIZED then []
      else [BuildExecutableCalled (stage = OPTIMIZED_HLO_PROTO_SERIALIZED),
            ClientCompileCalled (stage = OPTIMIZED_HLO_PROTO_SERIALIZED)])"
proof -
  have t: "snd (BuildExecutable local_client result options b) =
     [BuildExecutableCalled b, ClientCompileCalled b]" for b
    by (rule BuildExecutable_trace)
  show ?thesis
  proof (cases "BuildExecutable local_client result options False";
         cases "BuildExecutable local_client result options True")
    fix r1 t1 r2 t2
    assume a: "BuildExecutable local_client result options False = (r1, t1)"
      and b: "BuildExecutable local_client result options True = (r2, t2)"
    have t1: "t1 = [BuildExecutableCalled False, ClientCompileCalled False]"
      using t [of False] a by simp
    have t2: "t2 = [BuildExecutableCalled True, ClientCompileCalled True]"
      using t [of True] b by simp
    show ?thesis
      by (cases stage; cases r1; cases r2)
         (simp_all add: BuildHLOString_def a b t1 t2 Let_def split: sum.splits option.splits)
  qed
qed




text \<open>
  C5. The exporter is the spec's dispatch: for every stage and all collaborators, it
  returns what running the one producer of the stage returns, with the same calls. The
  producer of HLO, HLO_NO_METADATA and HLO_SERIALIZED is a from-program one and the exporter
  makes no call of the Executable Builder; the producer of each OPTIMIZED stage is a
  from-executable one, the calls of the exporter are those of one call of the Executable
  Builder made on the exporter's own result and options, and they hold exactly one call of
  the Executable Builder.
\<close>

theorem exporter_runs_one_producer:
  "BuildHLOString api stage result local_client options =
     spec_run_producer api result local_client options (spec_producer api stage) \<and>
   (if stage = HLO \<or> stage = HLO_NO_METADATA \<or> stage = HLO_SERIALIZED then
      (\<exists>render. spec_producer api stage = FromProgram render) \<and>
      snd (BuildHLOString api stage result local_client options) = [] \<and>
      executable_builder_calls (snd (BuildHLOString api stage result local_client options)) = 0
    else
      (\<exists>render. spec_producer api stage =
         FromExecutable (stage = OPTIMIZED_HLO_PROTO_SERIALIZED) render) \<and>
      snd (BuildHLOString api stage result local_client options) =
        snd (BuildExecutable local_client result options
               (stage = OPTIMIZED_HLO_PROTO_SERIALIZED)) \<and>
      executable_builder_calls (snd (BuildHLOString api stage result local_client options)) = 1)"
proof -
  have run: "BuildHLOString api stage result local_client options =
     spec_run_producer api result local_client options (spec_producer api stage)"
  proof (cases stage)
    case HLO
    then show ?thesis
      by (simp add: BuildHLOString_def Let_def split: sum.splits)
  next
    case HLO_NO_METADATA
    then show ?thesis
      by (simp add: BuildHLOString_def Let_def split: sum.splits)
  next
    case HLO_SERIALIZED
    then show ?thesis
      by (simp add: BuildHLOString_def Let_def split: sum.splits)
  next
    case OPTIMIZED_HLO
    then show ?thesis
      by (cases "BuildExecutable local_client result options False";
          cases "fst (BuildExecutable local_client result options False)")
         (simp_all add: BuildHLOString_def Let_def)
  next
    case OPTIMIZED_HLO_SERIALIZED
    then show ?thesis
      by (cases "BuildExecutable local_client result options False";
          cases "fst (BuildExecutable local_client result options False)")
         (simp_all add: BuildHLOString_def Let_def)
  next
    case OPTIMIZED_HLO_PROTO_SERIALIZED
    then show ?thesis
      by (cases "BuildExecutable local_client result options True";
          cases "fst (BuildExecutable local_client result options True)")
         (simp_all add: BuildHLOString_def Let_def split: option.splits)
  next
    case OPTIMIZED_HLO_DOT
    then show ?thesis
      by (cases "BuildExecutable local_client result options False";
          cases "fst (BuildExecutable local_client result options False)")
         (simp_all add: BuildHLOString_def Let_def split: sum.splits)
  qed
  have rest: "if stage = HLO \<or> stage = HLO_NO_METADATA \<or> stage = HLO_SERIALIZED then
      (\<exists>render. spec_producer api stage = FromProgram render) \<and>
      snd (BuildHLOString api stage result local_client options) = [] \<and>
      executable_builder_calls (snd (BuildHLOString api stage result local_client options)) = 0
    else
      (\<exists>render. spec_producer api stage =
         FromExecutable (stage = OPTIMIZED_HLO_PROTO_SERIALIZED) render) \<and>
      snd (BuildHLOString api stage result local_client options) =
        snd (BuildExecutable local_client result options
               (stage = OPTIMIZED_HLO_PROTO_SERIALIZED)) \<and>
      executable_builder_calls (snd (BuildHLOString api stage result local_client options)) = 1"
    by (cases stage)
       (simp_all add: BuildHLOString_trace BuildExecutable_trace executable_builder_calls_def)
  show ?thesis using run rest by (rule conjI)
qed

text \<open>
  C6. Every call of the Executable Builder and of the client's compilation that the
  exporter makes carries the embed-IR flag exactly when the stage is
  \<^verbatim>\<open>OPTIMIZED_HLO_PROTO_SERIALIZED\<close>, so the flag is false at the calls that leave the
  parameter out. For that stage, when the client returns one executable and it carries a
  proto, the exporter returns the serialized proto.
\<close>

theorem embed_ir_only_for_proto_stage:
  "(\<forall>b. BuildExecutableCalled b \<in> set (snd (BuildHLOString api stage result local_client options)) \<or>
        ClientCompileCalled b \<in> set (snd (BuildHLOString api stage result local_client options))
        \<longrightarrow> b = (stage = OPTIMIZED_HLO_PROTO_SERIALIZED)) \<and>
   xla_embed_ir_in_executable (executable_build_options local_client result options flag) = flag \<and>
   (stage = OPTIMIZED_HLO_PROTO_SERIALIZED \<and>
    Compile local_client (computation result) (xla_input_shapes result)
      (executable_build_options local_client result options True) = Inr [executable] \<and>
    hlo_proto api executable = Some proto \<longrightarrow>
      BuildHLOString api stage result local_client options =
        (Ok (HloProto_SerializeAsString api proto),
         [BuildExecutableCalled True, ClientCompileCalled True]))"
proof (intro conjI allI impI)
  fix b
  assume "BuildExecutableCalled b \<in> set (snd (BuildHLOString api stage result local_client options)) \<or>
        ClientCompileCalled b \<in> set (snd (BuildHLOString api stage result local_client options))"
  then show "b = (stage = OPTIMIZED_HLO_PROTO_SERIALIZED)"
    by (auto simp: BuildHLOString_trace split: if_splits)
next
  show "xla_embed_ir_in_executable (executable_build_options local_client result options flag) = flag"
    by (simp add: executable_build_options_def)
next
  assume "stage = OPTIMIZED_HLO_PROTO_SERIALIZED \<and>
    Compile local_client (computation result) (xla_input_shapes result)
      (executable_build_options local_client result options True) = Inr [executable] \<and>
    hlo_proto api executable = Some proto"
  then show "BuildHLOString api stage result local_client options =
        (Ok (HloProto_SerializeAsString api proto),
         [BuildExecutableCalled True, ClientCompileCalled True])"
    by (simp add: BuildHLOString_def BuildExecutable_def Let_def executable_build_options_def)
qed

theorem embed_ir_only_for_proto_stage_witness:
  "(BuildExecutableCalled True \<in> set (snd (BuildHLOString example_api OPTIMIZED_HLO_PROTO_SERIALIZED
       example_result example_client example_options)) \<or>
    ClientCompileCalled True \<in> set (snd (BuildHLOString example_api OPTIMIZED_HLO_PROTO_SERIALIZED
       example_result example_client example_options))) \<and>
   True = (OPTIMIZED_HLO_PROTO_SERIALIZED = OPTIMIZED_HLO_PROTO_SERIALIZED) \<and>
   Compile example_client (computation example_result) (xla_input_shapes example_result)
      (executable_build_options example_client example_result example_options True) = Inr [1] \<and>
   hlo_proto example_api 1 = Some ''HloProto f'' \<and>
   BuildHLOString example_api OPTIMIZED_HLO_PROTO_SERIALIZED example_result example_client
       example_options =
     (Ok ''proto of HloProto f'', [BuildExecutableCalled True, ClientCompileCalled True])"
proof -
  note t = embed_ir_only_for_proto_stage [of example_api OPTIMIZED_HLO_PROTO_SERIALIZED
      example_result example_client example_options True 1 "''HloProto f''"]
  have h: "Compile example_client (computation example_result) (xla_input_shapes example_result)
      (executable_build_options example_client example_result example_options True) = Inr [1] \<and>
    hlo_proto example_api 1 = Some ''HloProto f''"
    by (simp add: example_client_def example_api_def executable_build_options_def)
  from t h have r: "BuildHLOString example_api OPTIMIZED_HLO_PROTO_SERIALIZED example_result
       example_client example_options =
     (Ok (HloProto_SerializeAsString example_api ''HloProto f''),
      [BuildExecutableCalled True, ClientCompileCalled True])" by blast
  then show ?thesis using h by (simp add: example_api_def)
qed

lemma inputs_loop_events:
  "e \<in> set (snd (inputs_loop rt cs ths i)) \<Longrightarrow> (\<exists>j. e = TensorRead j) \<or> (\<exists>j. e = CopiedToHost j)"
proof (induction ths arbitrary: i)
  case Nil
  then show ?case by simp
next
  case (Cons th ths)
  then show ?case
    by (auto simp: in_and_then split: if_splits prod.splits)
qed

lemma acquire_in_order_events:
  "e \<in> set (snd (acquire_in_order fails is acquired)) \<Longrightarrow> is_lock_event e"
proof (induction "is" arbitrary: acquired)
  case Nil
  then show ?case by simp
next
  case (Cons i "is")
  show ?case
  proof (cases "fails i")
    case (Some st)
    then show ?thesis using Cons.prems by auto
  next
    case None
    obtain r tr where rec: "acquire_in_order fails is (i # acquired) = (r, tr)"
      by (cases "acquire_in_order fails is (i # acquired)")
    then have "e = Locked i \<or> e \<in> set (snd (acquire_in_order fails is (i # acquired)))"
      using Cons.prems None by auto
    then show ?thesis using Cons.IH by auto
  qed
qed



lemma release_locks_events:
  "e \<in> set (release_locks infos) \<Longrightarrow> is_lock_event e"
  by (auto simp: release_locks_def)

lemma generate_options_events:
  "snd (generate_options rt dc dev s p) =
     (if platform_device_type p = DEVICE_TPU \<and> s = None then [TfrtTpuOptionsGenerated]
      else [CompilerOptionsGenerated False])"
  by (simp add: generate_options_def)

text \<open>The events of the part of the call from the lookup of the device compiler on.\<close>

lemma in_compile_and_export:
  "e \<in> set (snd (compile_and_export rt api stage func_name dev spec fbody cs inputs infos)) \<Longrightarrow>
     e = DeviceCompilerLookedUp \<or>
     ((\<exists>dc. LookupOrCreate rt dev (XlaPlatformInfoFromDevice rt dev) = Inr dc) \<and>
      (e = DeviceCompilerUnref \<or>
       e \<in> set (if platform_device_type (XlaPlatformInfoFromDevice rt dev) = DEVICE_TPU \<and>
                   device_stream dev = None
                then [TfrtTpuOptionsGenerated] else [CompilerOptionsGenerated False]) \<or>
       is_compilation e))"
  by (auto simp: compile_and_export_def Let_def in_and_then generate_options_events
        BuildHLOString_trace split: if_splits)


text \<open>The trace of a call, by the way it ends.\<close>

lemma GetCompilerIr_trace_unsupported:
  "stage_support_check dev stage \<noteq> Ok () \<Longrightarrow>
   snd (GetCompilerIr rt api stage func_name dev ths) = []"
  by (cases "stage_support_check dev stage") (simp_all add: GetCompilerIr_def)

lemma GetCompilerIr_trace_unresolved:
  "stage_support_check dev stage = Ok () \<Longrightarrow>
   GetBodyAndConstantsAndResources rt (device_name dev) func_name = Inl st \<Longrightarrow>
   snd (GetCompilerIr rt api stage func_name dev ths) = [ResolverCalled]"
  by (simp add: GetCompilerIr_def snd_and_then Let_def)

lemma GetCompilerIr_trace_spec_mode:
  "stage_support_check dev stage = Ok () \<Longrightarrow>
   GetBodyAndConstantsAndResources rt (device_name dev) func_name = Inr (fbody, cs, rs) \<Longrightarrow>
   snd (GetCompilerIr rt api stage func_name dev []) =
     ResolverCalled # snd (compile_and_export rt api stage func_name dev True fbody cs [] [])"
  by (simp add: GetCompilerIr_def snd_and_then release_locks_def Let_def)

lemma GetCompilerIr_trace_value_mode:
  "stage_support_check dev stage = Ok () \<Longrightarrow>
   GetBodyAndConstantsAndResources rt (device_name dev) func_name = Inr (fbody, cs, rs) \<Longrightarrow>
   ths \<noteq> [] \<Longrightarrow>
   snd (GetCompilerIr rt api stage func_name dev ths) =
     ResolverCalled # snd (value_mode_inputs rt cs rs ths) @
     (case fst (value_mode_inputs rt cs rs ths) of
        Ok (inputs, infos) \<Rightarrow>
          snd (compile_and_export rt api stage func_name dev False fbody cs inputs infos) @
          release_locks infos
      | Error st \<Rightarrow> []
      | Undefined u \<Rightarrow> [])"
  by (simp add: GetCompilerIr_def snd_and_then Let_def split: outcome.splits prod.splits)









section \<open>Where a null pointer is read\<close>

lemma attr_loop_no_null:
  "fst (attr_loop parse idx attrs h v log) \<noteq> Undefined NullDereference"
  by (induction attrs arbitrary: h v log) (auto simp: Let_def split: list.splits sum.splits)

lemma arg_attrs_loop_no_null:
  "fst (arg_attrs_loop parse es v log) \<noteq> Undefined NullDereference"
proof (induction es arbitrary: v log)
  case Nil
  then show ?case by simp
next
  case (Cons e es)
  show ?case
  proof (cases "attr_loop parse (fst e) (snd e) False v log")
    case (Pair r log')
    then show ?thesis
      using attr_loop_no_null [of parse "fst e" "snd e" False v log] Cons.IH
      by (cases r) (auto split: if_splits)
  qed
qed

lemma args_loop_no_null:
  "fst (args_loop as n v log) \<noteq> Undefined NullDereference"
proof (induction as arbitrary: n log)
  case Nil
  then show ?case by simp
next
  case (Cons a as)
  show ?case
  proof (cases "args_loop as (Suc n) v (log @ [ShapesRead n (vsize v)])")
    case (Pair r log')
    then show ?thesis
      using Cons.IH [of "Suc n" "log @ [ShapesRead n (vsize v)]"]
      by (cases r) (auto simp: Let_def split: option.splits)
  qed
qed

lemma spec_builder_no_null:
  "BuildXlaCompilerArgumentFromFuncBody parse fbody \<noteq> Undefined NullDereference"
proof (cases fbody)
  case None
  then show ?thesis
    by (simp add: BuildXlaCompilerArgumentFromFuncBody_def BuildXlaCompilerArgumentFromFuncBody_log_def)
next
  case (Some fb)
  let ?r = "arg_attrs_loop parse (arg_attr (fdef fb)) (reserve (length (input_arg (fdef fb)))) []"
  show ?thesis
  proof (cases ?r)
    case (Pair r log)
    then show ?thesis
      using Some arg_attrs_loop_no_null [of parse "arg_attr (fdef fb)" "reserve (length (input_arg (fdef fb)))" "[]"]
        args_loop_no_null
      by (cases r)
         (auto simp: BuildXlaCompilerArgumentFromFuncBody_def
            BuildXlaCompilerArgumentFromFuncBody_log_def Let_def)
  qed
qed

lemma build_arguments_no_null:
  "build_arguments rt spec fbody cs inputs infos \<noteq> Undefined NullDereference"
  by (simp add: build_arguments_def spec_builder_no_null BuildXlaCompilerArguments_def)

lemma BuildHLOString_from_program_defined:
  "stage = HLO \<or> stage = HLO_NO_METADATA \<or> stage = HLO_SERIALIZED \<Longrightarrow>
   fst (BuildHLOString api stage result local_client options) \<noteq> Undefined u"
  by (auto simp: BuildHLOString_def Let_def split: sum.splits)

lemma compile_and_export_no_null:
  "stage = HLO \<or> stage = HLO_NO_METADATA \<or> stage = HLO_SERIALIZED \<Longrightarrow>
   fst (compile_and_export rt api stage func_name dev spec fbody cs inputs infos)
     \<noteq> Undefined NullDereference"
  using build_arguments_no_null [of rt spec fbody cs inputs infos]
  by (auto simp: compile_and_export_def Let_def fst_and_then call_def
      BuildHLOString_from_program_defined split: outcome.splits sum.splits)

lemma inputs_loop_defined: "fst (inputs_loop rt cs ths i) \<noteq> Undefined u"
  by (induction ths arbitrary: i)
     (auto simp: fst_and_then call_def split: outcome.splits sum.splits prod.splits)

lemma LockVariables_defined: "fst (LockVariables rt infos) \<noteq> Undefined u"
  by (simp add: LockVariables_def split: prod.splits option.splits)

lemma value_mode_inputs_defined: "fst (value_mode_inputs rt cs rs ths) \<noteq> Undefined u"
  using inputs_loop_defined [of rt cs ths 0 u]
  by (auto simp: value_mode_inputs_def fst_and_then call_def LockVariables_defined
      split: outcome.splits sum.splits prod.splits)

text \<open>
  C10. On a device that is not a CPU and has no accelerator info, the check of the stage
  reads the stream through the null pointer, for every stage and before anything else is
  called. The later read of the stream is guarded: on a CPU device without accelerator
  info, a call for a stage read from the program reads no null pointer.
\<close>

theorem stage_check_reads_accelerator_info:
  "(device_type dev \<noteq> DEVICE_CPU \<and> tensorflow_accelerator_device_info dev = None \<longrightarrow>
      GetCompilerIr rt api stage func_name dev ths = (Undefined NullDereference, [])) \<and>
   (device_type dev = DEVICE_CPU \<and> tensorflow_accelerator_device_info dev = None \<and>
    (stage = HLO \<or> stage = HLO_NO_METADATA \<or> stage = HLO_SERIALIZED) \<longrightarrow>
      device_stream dev = None \<and>
      fst (GetCompilerIr rt api stage func_name dev ths) \<noteq> Undefined NullDereference)"
proof -
  have 1: "device_type dev \<noteq> DEVICE_CPU \<and> tensorflow_accelerator_device_info dev = None \<longrightarrow>
      GetCompilerIr rt api stage func_name dev ths = (Undefined NullDereference, [])"
    by (simp add: GetCompilerIr_def stage_support_check_def)
  have 2: "device_type dev = DEVICE_CPU \<and> tensorflow_accelerator_device_info dev = None \<and>
    (stage = HLO \<or> stage = HLO_NO_METADATA \<or> stage = HLO_SERIALIZED) \<longrightarrow>
      device_stream dev = None \<and>
      fst (GetCompilerIr rt api stage func_name dev ths) \<noteq> Undefined NullDereference"
  proof
    assume a: "device_type dev = DEVICE_CPU \<and> tensorflow_accelerator_device_info dev = None \<and>
      (stage = HLO \<or> stage = HLO_NO_METADATA \<or> stage = HLO_SERIALIZED)"
    then have st: "stage = HLO \<or> stage = HLO_NO_METADATA \<or> stage = HLO_SERIALIZED" by simp
    have s: "device_stream dev = None" using a by (simp add: device_stream_def)
    have "fst (GetCompilerIr rt api stage func_name dev ths) \<noteq> Undefined NullDereference"
      using a compile_and_export_no_null [OF st, of rt api func_name dev]
        value_mode_inputs_defined [of rt _ _ ths NullDereference]
      by (auto simp: GetCompilerIr_def stage_support_check_def Let_def fst_and_then call_def
          split: outcome.splits sum.splits prod.splits if_splits)
    with s show "device_stream dev = None \<and>
      fst (GetCompilerIr rt api stage func_name dev ths) \<noteq> Undefined NullDereference" by simp
  qed
  show ?thesis by (rule conjI [OF 1 2])
qed

theorem stage_check_reads_accelerator_info_witness:
  "device_type gpu_device_without_info \<noteq> DEVICE_CPU \<and>
   tensorflow_accelerator_device_info gpu_device_without_info = None \<and>
   GetCompilerIr example_runtime example_api HLO ''f'' gpu_device_without_info [] =
     (Undefined NullDereference, []) \<and>
   device_type cpu_device = DEVICE_CPU \<and> tensorflow_accelerator_device_info cpu_device = None \<and>
   device_stream cpu_device = None \<and>
   fst (GetCompilerIr example_runtime example_api HLO ''f'' cpu_device []) \<noteq>
     Undefined NullDereference"
proof -
  note g = stage_check_reads_accelerator_info
    [of gpu_device_without_info example_runtime example_api HLO "''f''" "[]"]
  note c = stage_check_reads_accelerator_info
    [of cpu_device example_runtime example_api HLO "''f''" "[]"]
  have h1: "device_type gpu_device_without_info \<noteq> DEVICE_CPU \<and>
    tensorflow_accelerator_device_info gpu_device_without_info = None"
    by (simp add: gpu_device_without_info_def)
  have h2: "device_type cpu_device = DEVICE_CPU \<and>
    tensorflow_accelerator_device_info cpu_device = None"
    by (simp add: cpu_device_def)
  from g h1 have c1: "GetCompilerIr example_runtime example_api HLO ''f'' gpu_device_without_info [] =
     (Undefined NullDereference, [])" by blast
  from c h2 have c2: "device_stream cpu_device = None \<and>
    fst (GetCompilerIr example_runtime example_api HLO ''f'' cpu_device []) \<noteq>
      Undefined NullDereference" by blast
  show ?thesis using h1 h2 c1 c2 by blast
qed

section \<open>Binary search on a sorted vector\<close>

declare lower_bound.simps [simp del]

lemma lower_bound_partitions:
  assumes "sorted xs" "first + count \<le> length xs"
    and "\<forall>j < first. xs ! j < v"
    and "\<forall>j. first + count \<le> j \<and> j < length xs \<longrightarrow> v \<le> xs ! j"
  shows "lower_bound xs v first count \<le> length xs \<and>
     (\<forall>j < lower_bound xs v first count. xs ! j < v) \<and>
     (\<forall>j. lower_bound xs v first count \<le> j \<and> j < length xs \<longrightarrow> v \<le> xs ! j)"
  using assms
proof (induction xs v first count rule: lower_bound.induct)
  case (1 xs v first count)
  show ?case
  proof (cases "count = 0")
    case True
    then show ?thesis using "1.prems" by (subst (1 2 3) lower_bound.simps) simp
  next
    case False
    define step where "step = count div 2"
    define it where "it = first + step"
    have it: "it < first + count" "it < length xs" using False "1.prems"(2)
      by (auto simp: it_def step_def)
    show ?thesis
    proof (cases "xs ! it < v")
      case True
      have below: "\<forall>j < Suc it. xs ! j < v"
      proof (intro allI impI)
        fix j assume "j < Suc it"
        then have "j \<le> it" by simp
        then have "xs ! j \<le> xs ! it" using "1.prems"(1) it(2) by (simp add: sorted_nth_mono)
        then show "xs ! j < v" using True by simp
      qed
      have eq: "Suc it + (count - (step + 1)) = first + count"
        using it(1) by (simp add: it_def)
      have ih: "lower_bound xs v (Suc it) (count - (step + 1)) \<le> length xs \<and>
         (\<forall>j < lower_bound xs v (Suc it) (count - (step + 1)). xs ! j < v) \<and>
         (\<forall>j. lower_bound xs v (Suc it) (count - (step + 1)) \<le> j \<and> j < length xs \<longrightarrow> v \<le> xs ! j)"
        using "1.IH"(1) [OF False step_def it_def True "1.prems"(1)] below "1.prems"(2,4) eq
        by simp
      have "lower_bound xs v first count = lower_bound xs v (Suc it) (count - (step + 1))"
        using False True by (subst lower_bound.simps) (simp add: Let_def it_def step_def)
      then show ?thesis using ih by simp
    next
      case notless: False
      have above: "\<forall>j. first + step \<le> j \<and> j < length xs \<longrightarrow> v \<le> xs ! j"
      proof (intro allI impI)
        fix j assume "first + step \<le> j \<and> j < length xs"
        then have "xs ! it \<le> xs ! j" using "1.prems"(1) by (simp add: it_def sorted_nth_mono)
        then show "v \<le> xs ! j" using notless by simp
      qed
      have le: "first + step \<le> length xs" using it(2) by (simp add: it_def)
      have ih: "lower_bound xs v first step \<le> length xs \<and>
         (\<forall>j < lower_bound xs v first step. xs ! j < v) \<and>
         (\<forall>j. lower_bound xs v first step \<le> j \<and> j < length xs \<longrightarrow> v \<le> xs ! j)"
        using "1.IH"(2) [OF False step_def it_def notless "1.prems"(1) le "1.prems"(3)] above
        by simp
      have "lower_bound xs v first count = lower_bound xs v first step"
        using False notless by (subst lower_bound.simps) (simp add: Let_def it_def step_def)
      then show ?thesis using ih by simp
    qed
  qed
qed

lemma c_binary_search_sorted:
  assumes "sorted xs"
  shows "c_binary_search xs v \<longleftrightarrow> v \<in> set xs"
proof -
  define r where "r = lower_bound xs v 0 (length xs)"
  have p: "r \<le> length xs \<and> (\<forall>j < r. xs ! j < v) \<and> (\<forall>j. r \<le> j \<and> j < length xs \<longrightarrow> v \<le> xs ! j)"
    unfolding r_def using assms by (intro lower_bound_partitions) simp_all
  show ?thesis
  proof
    assume "c_binary_search xs v"
    then have "r \<noteq> length xs" "\<not> v < xs ! r" by (simp_all add: c_binary_search_def r_def Let_def)
    then have "r < length xs" "xs ! r = v" using p by (auto simp: order.antisym)
    then show "v \<in> set xs" by (metis nth_mem)
  next
    assume "v \<in> set xs"
    then obtain k where k: "k < length xs" "xs ! k = v" by (auto simp: in_set_conv_nth)
    have "r \<le> k"
    proof (rule ccontr)
      assume "\<not> r \<le> k"
      then have "xs ! k < v" using p by simp
      then show False using k by simp
    qed
    then have "r < length xs" and "xs ! r \<le> xs ! k"
      using k(1) assms by (simp_all add: sorted_nth_mono)
    then have "r \<noteq> length xs" and "\<not> v < xs ! r" using k(2) by simp_all
    then show "c_binary_search xs v" by (simp add: c_binary_search_def r_def Let_def)
  qed
qed

section \<open>The inputs and arguments of value mode\<close>

lemma inputs_loop_inputs:
  assumes "sorted cs" "fst (inputs_loop rt cs ths i) = Ok (storage, inputs)"
  shows "length inputs = length ths \<and>
     (\<forall>k < length ths.
        if int (i + k) \<in> set cs then CopyToDevice rt (ths ! k) = Inr (inputs ! k)
        else Tensor rt (ths ! k) = Inr (inputs ! k)) \<and>
     storage = map snd (filter (\<lambda>p. int (fst p) \<in> set cs) (zip [i..<i + length ths] inputs))"
  using assms(2)
proof (induction ths arbitrary: i storage inputs)
  case Nil
  then show ?case by simp
next
  case (Cons th ths)
  note bs = c_binary_search_sorted [OF assms(1)]
  from Cons.prems obtain t where t: "Tensor rt th = Inr t"
    by (cases "Tensor rt th") (auto simp: fst_and_then)
  have upt: "[i..<i + length (th # ths)] = i # [Suc i..<Suc i + length ths]"
    by (simp add: upt_rec)
  show ?case
  proof (cases "int i \<in> set cs")
    case True
    from Cons.prems t True obtain host where h: "CopyToDevice rt th = Inr host"
      by (cases "CopyToDevice rt th") (auto simp: fst_and_then bs)
    from Cons.prems t True h obtain storage' inputs' where
      rec: "fst (inputs_loop rt cs ths (Suc i)) = Ok (storage', inputs')"
      and res: "storage = host # storage'" "inputs = host # inputs'"
      by (cases "fst (inputs_loop rt cs ths (Suc i))")
         (auto simp: fst_and_then bs split: prod.splits)
    from Cons.IH [OF rec] have ih: "length inputs' = length ths"
      "\<forall>k < length ths.
        if int (Suc i + k) \<in> set cs then CopyToDevice rt (ths ! k) = Inr (inputs' ! k)
        else Tensor rt (ths ! k) = Inr (inputs' ! k)"
      "storage' = map snd (filter (\<lambda>p. int (fst p) \<in> set cs) (zip [Suc i..<Suc i + length ths] inputs'))"
      by simp_all
    have "\<forall>k < length (th # ths).
        if int (i + k) \<in> set cs then CopyToDevice rt ((th # ths) ! k) = Inr (inputs ! k)
        else Tensor rt ((th # ths) ! k) = Inr (inputs ! k)"
    proof (intro allI impI)
      fix k assume "k < length (th # ths)"
      then show "if int (i + k) \<in> set cs then CopyToDevice rt ((th # ths) ! k) = Inr (inputs ! k)
        else Tensor rt ((th # ths) ! k) = Inr (inputs ! k)"
        using ih(2) True h res by (cases k) auto
    qed
    then show ?thesis using ih(1,3) res True by (simp only: upt) simp
  next
    case False
    from Cons.prems t False obtain storage' inputs' where
      rec: "fst (inputs_loop rt cs ths (Suc i)) = Ok (storage', inputs')"
      and res: "storage = storage'" "inputs = t # inputs'"
      by (cases "fst (inputs_loop rt cs ths (Suc i))")
         (auto simp: fst_and_then bs split: prod.splits)
    from Cons.IH [OF rec] have ih: "length inputs' = length ths"
      "\<forall>k < length ths.
        if int (Suc i + k) \<in> set cs then CopyToDevice rt (ths ! k) = Inr (inputs' ! k)
        else Tensor rt (ths ! k) = Inr (inputs' ! k)"
      "storage' = map snd (filter (\<lambda>p. int (fst p) \<in> set cs) (zip [Suc i..<Suc i + length ths] inputs'))"
      by simp_all
    have "\<forall>k < length (th # ths).
        if int (i + k) \<in> set cs then CopyToDevice rt ((th # ths) ! k) = Inr (inputs ! k)
        else Tensor rt ((th # ths) ! k) = Inr (inputs ! k)"
    proof (intro allI impI)
      fix k assume "k < length (th # ths)"
      then show "if int (i + k) \<in> set cs then CopyToDevice rt ((th # ths) ! k) = Inr (inputs ! k)
        else Tensor rt ((th # ths) ! k) = Inr (inputs ! k)"
        using ih(2) False t res by (cases k) auto
    qed
    then show ?thesis using ih(1,3) res False by (simp only: upt) simp
  qed
qed

lemma value_arguments_kinds:
  "length (value_arguments rt cs infos n ts) = length ts \<and>
   (\<forall>k < length ts.
      kind (value_arguments rt cs infos n ts ! k) =
        (if int (n + k) \<in> set cs then kConstant
         else if int (n + k) \<in> index ` set infos then kResource else kParameter) \<and>
      type (value_arguments rt cs infos n ts ! k) = dtype rt (ts ! k) \<and>
      shape (value_arguments rt cs infos n ts ! k) = tensor_shape rt (ts ! k))"
proof (induction ts arbitrary: n)
  case Nil
  then show ?case by simp
next
  case (Cons t ts)
  have len: "length (value_arguments rt cs infos n (t # ts)) = length (t # ts)"
    using Cons.IH by simp
  have each: "kind (value_arguments rt cs infos n (t # ts) ! k) =
        (if int (n + k) \<in> set cs then kConstant
         else if int (n + k) \<in> index ` set infos then kResource else kParameter) \<and>
      type (value_arguments rt cs infos n (t # ts) ! k) = dtype rt ((t # ts) ! k) \<and>
      shape (value_arguments rt cs infos n (t # ts) ! k) = tensor_shape rt ((t # ts) ! k)"
    if "k < length (t # ts)" for k
  proof (cases k)
    case 0
    then show ?thesis by simp
  next
    case (Suc j)
    then have "j < length ts" using that by simp
    then show ?thesis using Cons.IH [of "Suc n"] Suc by simp
  qed
  show ?case using len each by blast
qed

section \<open>Taking the locks\<close>

lemma acquire_in_order_None:
  "fst (acquire_in_order fails is acquired) = None \<Longrightarrow>
   snd (acquire_in_order fails is acquired) = map Locked is"
proof (induction "is" arbitrary: acquired)
  case Nil
  then show ?case by simp
next
  case (Cons i "is")
  show ?case
  proof (cases "fails i")
    case (Some st)
    then show ?thesis using Cons.prems by simp
  next
    case None
    obtain r tr where rec: "acquire_in_order fails is (i # acquired) = (r, tr)"
      by (cases "acquire_in_order fails is (i # acquired)")
    then have "fst (acquire_in_order fails is (i # acquired)) = None"
      using Cons.prems None by simp
    from Cons.IH [OF this] show ?thesis using None rec by simp
  qed
qed

lemma acquire_in_order_Some:
  "fst (acquire_in_order fails is acquired) = Some st \<Longrightarrow>
   \<exists>taken rest. is = taken @ rest \<and>
     snd (acquire_in_order fails is acquired) =
       map Locked taken @ map Unlocked (rev taken @ acquired)"
proof (induction "is" arbitrary: acquired)
  case Nil
  then show ?case by simp
next
  case (Cons i "is")
  show ?case
  proof (cases "fails i")
    case (Some st')
    then have "snd (acquire_in_order fails (i # is) acquired) =
       map Locked [] @ map Unlocked (rev [] @ acquired)" by simp
    then show ?thesis by (metis append_Nil)
  next
    case None
    obtain r tr where rec: "acquire_in_order fails is (i # acquired) = (r, tr)"
      by (cases "acquire_in_order fails is (i # acquired)")
    then have "fst (acquire_in_order fails is (i # acquired)) = Some st"
      using Cons.prems None by simp
    from Cons.IH [OF this] obtain taken rest where
      t: "is = taken @ rest"
      "snd (acquire_in_order fails is (i # acquired)) =
         map Locked taken @ map Unlocked (rev taken @ i # acquired)" by blast
    have "i # is = (i # taken) @ rest" using t(1) by simp
    moreover have "snd (acquire_in_order fails (i # is) acquired) =
       map Locked (i # taken) @ map Unlocked (rev (i # taken) @ acquired)"
      using None rec t(2) by simp
    ultimately show ?thesis by blast
  qed
qed

lemma LockVariables_fresh:
  "LockVariables rt (map (\<lambda>i. \<lparr>index = i, lock_held = False\<rparr>) rs) =
     (case acquire_in_order (lock_failure rt) (sort rs) [] of
        (None, trace) \<Rightarrow> (Ok (map (\<lambda>i. \<lparr>index = i, lock_held = True\<rparr>) rs), trace)
      | (Some st, trace) \<Rightarrow> (Error st, trace))"
proof -
  have "map index (map (\<lambda>i. \<lparr>index = i, lock_held = False\<rparr>) rs) = rs"
    by (induction rs) simp_all
  moreover have "map (\<lambda>v. v\<lparr>lock_held := True\<rparr>) (map (\<lambda>i. \<lparr>index = i, lock_held = False\<rparr>) rs) =
      map (\<lambda>i. \<lparr>index = i, lock_held = True\<rparr>) rs"
    by (induction rs) simp_all
  ultimately show ?thesis by (simp only: LockVariables_def)
qed

lemma value_mode_inputs_unfold:
  "value_mode_inputs rt cs rs ths =
     and_then (inputs_loop rt cs ths 0) (\<lambda>(inputs_storage, inputs).
       case variable_lookup_failure rt inputs rs of
         Some st \<Rightarrow> (Error st, [VariableInfosResolved])
       | None \<Rightarrow>
           (case acquire_in_order (lock_failure rt) (sort rs) [] of
              (None, trace) \<Rightarrow>
                (Ok (inputs, map (\<lambda>i. \<lparr>index = i, lock_held = True\<rparr>) rs),
                 VariableInfosResolved # trace)
            | (Some st, trace) \<Rightarrow> (Error st, VariableInfosResolved # trace)))"
  unfolding value_mode_inputs_def GetVariableInfosFromInputs_def
  by (rule arg_cong [where f = "and_then (inputs_loop rt cs ths 0)"])
     (auto simp: fun_eq_iff and_then_def call_def LockVariables_fresh
        split: option.splits prod.splits)

lemma value_mode_inputs_Ok:
  assumes "fst (value_mode_inputs rt cs rs ths) = Ok (inputs, infos)"
  shows "\<exists>storage. fst (inputs_loop rt cs ths 0) = Ok (storage, inputs) \<and>
     infos = map (\<lambda>i. \<lparr>index = i, lock_held = True\<rparr>) rs \<and>
     snd (value_mode_inputs rt cs rs ths) =
       snd (inputs_loop rt cs ths 0) @ VariableInfosResolved # map Locked (sort rs)"
proof -
  from assms obtain storage inputs' where
    il: "fst (inputs_loop rt cs ths 0) = Ok (storage, inputs')"
    by (cases "fst (inputs_loop rt cs ths 0)") (auto simp: value_mode_inputs_unfold fst_and_then)
  from assms il have lk: "variable_lookup_failure rt inputs' rs = None"
    by (cases "variable_lookup_failure rt inputs' rs")
       (auto simp: value_mode_inputs_unfold fst_and_then)
  obtain r tr where acq: "acquire_in_order (lock_failure rt) (sort rs) [] = (r, tr)"
    by (cases "acquire_in_order (lock_failure rt) (sort rs) []")
  from assms il lk acq have r: "r = None"
    by (cases r) (auto simp: value_mode_inputs_unfold fst_and_then)
  then have tr: "tr = map Locked (sort rs)"
    using acquire_in_order_None [of "lock_failure rt" "sort rs" "[]"] acq by simp
  have "inputs = inputs'" and "infos = map (\<lambda>i. \<lparr>index = i, lock_held = True\<rparr>) rs"
    using assms il lk acq r by (auto simp: value_mode_inputs_unfold fst_and_then)
  moreover have "snd (value_mode_inputs rt cs rs ths) =
       snd (inputs_loop rt cs ths 0) @ VariableInfosResolved # map Locked (sort rs)"
    using il lk acq r tr by (simp add: value_mode_inputs_unfold snd_and_then)
  ultimately show ?thesis using il by blast
qed

lemma example_value_mode_inputs:
  "value_mode_inputs example_runtime [0] [1, 2] [10, 11, 12, 13] =
     (Ok ([110, 11, 12, 13], [\<lparr>index = 1, lock_held = True\<rparr>, \<lparr>index = 2, lock_held = True\<rparr>]),
      [TensorRead 0, CopiedToHost 0, TensorRead 1, TensorRead 2, TensorRead 3,
       VariableInfosResolved, Locked 1, Locked 2])"
proof -
  have s: "sorted [0 :: int]" by simp
  have b: "c_binary_search [0] v \<longleftrightarrow> v = 0" for v
    using c_binary_search_sorted [OF s, of v] by simp
  show ?thesis
    by (simp add: value_mode_inputs_unfold example_runtime_def and_then_def call_def b)
qed

section \<open>The locks along a trace\<close>

lemma locks_held_append:
  "locks_held held (xs @ ys) = locks_held (locks_held held xs) ys"
  by (induction held xs rule: locks_held.induct) simp_all

lemma locks_held_no_lock_events:
  "\<forall>e \<in> set xs. \<not> is_lock_event e \<Longrightarrow> locks_held held xs = held"
  by (induction held xs rule: locks_held.induct) simp_all

lemma locks_held_Locked: "locks_held held (map Locked is) = held @ is"
  by (induction "is" arbitrary: held) simp_all

lemma locks_held_Unlocked:
  "set held \<subseteq> set is \<Longrightarrow> locks_held held (map Unlocked is) = []"
proof (induction "is" arbitrary: held)
  case Nil
  then show ?case by simp
next
  case (Cons i "is")
  then have "set (removeAll i held) \<subseteq> set is" by auto
  then show ?case using Cons.IH by simp
qed

lemma acquisitions_append: "acquisitions (xs @ ys) = acquisitions xs @ acquisitions ys"
  by (induction xs rule: acquisitions.induct) simp_all

lemma acquisitions_no_lock_events:
  "\<forall>e \<in> set xs. \<not> is_lock_event e \<Longrightarrow> acquisitions xs = []"
  by (induction xs rule: acquisitions.induct) simp_all

lemma acquisitions_Locked: "acquisitions (map Locked is) = is"
  by (induction "is") simp_all

lemma acquisitions_Unlocked: "acquisitions (map Unlocked is) = []"
  by (induction "is") simp_all

lemma compiles_under_locks_append:
  "compiles_under_locks required held (xs @ ys) \<longleftrightarrow>
     compiles_under_locks required held xs \<and>
     compiles_under_locks required (locks_held held xs) ys"
proof (induction xs arbitrary: held)
  case Nil
  then show ?case by simp
next
  case (Cons e xs)
  have "locks_held held (e # xs) = locks_held (locks_held held [e]) xs"
    using locks_held_append [of held "[e]" xs] by simp
  then show ?case using Cons.IH by auto
qed

lemma compiles_under_locks_no_compilation:
  "\<forall>e \<in> set xs. \<not> is_compilation e \<Longrightarrow> compiles_under_locks required held xs"
  by (induction xs arbitrary: held) simp_all

lemma compiles_under_locks_no_lock_events:
  "\<forall>e \<in> set xs. \<not> is_lock_event e \<Longrightarrow> set held = set required \<Longrightarrow>
   compiles_under_locks required held xs"
proof (induction xs arbitrary: held)
  case Nil
  then show ?case by simp
next
  case (Cons e xs)
  then have "locks_held held [e] = held" by (intro locks_held_no_lock_events) simp
  then show ?case using Cons by simp
qed

lemma lock_event_not_compilation: "is_lock_event e \<Longrightarrow> \<not> is_compilation e"
  by (cases e) simp_all

lemma inputs_loop_no_lock: "\<forall>e \<in> set (snd (inputs_loop rt cs ths i)). \<not> is_lock_event e"
proof
  fix e assume "e \<in> set (snd (inputs_loop rt cs ths i))"
  from inputs_loop_events [OF this] show "\<not> is_lock_event e" by auto
qed

lemma inputs_loop_no_compilation:
  "\<forall>e \<in> set (snd (inputs_loop rt cs ths i)). \<not> is_compilation e"
proof
  fix e assume "e \<in> set (snd (inputs_loop rt cs ths i))"
  from inputs_loop_events [OF this] show "\<not> is_compilation e" by auto
qed

lemma compile_and_export_no_lock:
  "\<forall>e \<in> set (snd (compile_and_export rt api stage func_name dev spec fbody cs inputs infos)).
     \<not> is_lock_event e"
proof
  fix e
  assume "e \<in> set (snd (compile_and_export rt api stage func_name dev spec fbody cs inputs infos))"
  from in_compile_and_export [OF this] show "\<not> is_lock_event e"
    by (cases e) (auto split: if_splits)
qed

text \<open>What taking the locks leaves, when it fails.\<close>

lemma acquire_in_order_failed:
  assumes "fst (acquire_in_order fails is []) = Some st" "sorted is"
  shows "locks_held [] (snd (acquire_in_order fails is [])) = [] \<and>
     sorted (acquisitions (snd (acquire_in_order fails is []))) \<and>
     (\<forall>e \<in> set (snd (acquire_in_order fails is [])). \<not> is_compilation e)"
proof -
  from acquire_in_order_Some [OF assms(1)] obtain taken rest where
    t: "is = taken @ rest"
    "snd (acquire_in_order fails is []) = map Locked taken @ map Unlocked (rev taken @ [])"
    by blast
  have "sorted taken" using assms(2) t(1) by (simp add: sorted_append)
  moreover have "locks_held [] (map Locked taken @ map Unlocked (rev taken)) = []"
    by (simp add: locks_held_append locks_held_Locked locks_held_Unlocked)
  moreover have "acquisitions (map Locked taken @ map Unlocked (rev taken)) = taken"
    by (simp add: acquisitions_append acquisitions_Locked acquisitions_Unlocked)
  moreover have "\<forall>e \<in> set (snd (acquire_in_order fails is [])). \<not> is_compilation e"
    using acquire_in_order_events [of _ fails "is" "[]"] lock_event_not_compilation by blast
  ultimately show ?thesis using t(2) by simp
qed

text \<open>The block of value mode: with the locks held when it succeeds, with none otherwise.\<close>

lemma value_mode_inputs_locks:
  "locks_held [] (snd (value_mode_inputs rt cs rs ths)) =
     (case fst (value_mode_inputs rt cs rs ths) of
        Ok v \<Rightarrow> sort rs | Error st \<Rightarrow> [] | Undefined u \<Rightarrow> []) \<and>
   sorted (acquisitions (snd (value_mode_inputs rt cs rs ths))) \<and>
   (\<forall>e \<in> set (snd (value_mode_inputs rt cs rs ths)). \<not> is_compilation e)"
proof (cases "fst (inputs_loop rt cs ths 0)")
  case (Ok v)
  obtain storage inputs where v: "v = (storage, inputs)" by (cases v)
  show ?thesis
  proof (cases "variable_lookup_failure rt inputs rs")
    case (Some st)
    then show ?thesis
      using Ok v inputs_loop_no_lock [of rt cs ths 0] inputs_loop_no_compilation [of rt cs ths 0]
      by (simp add: value_mode_inputs_unfold snd_and_then fst_and_then locks_held_append
          locks_held_no_lock_events acquisitions_append acquisitions_no_lock_events)
  next
    case None
    obtain r tr where acq: "acquire_in_order (lock_failure rt) (sort rs) [] = (r, tr)"
      by (cases "acquire_in_order (lock_failure rt) (sort rs) []")
    show ?thesis
    proof (cases r)
      case rNone: None
      then have tr: "tr = map Locked (sort rs)"
        using acquire_in_order_None [of "lock_failure rt" "sort rs" "[]"] acq by simp
      show ?thesis
        using Ok v None acq rNone tr inputs_loop_no_lock [of rt cs ths 0]
          inputs_loop_no_compilation [of rt cs ths 0]
        by (auto simp: value_mode_inputs_unfold snd_and_then fst_and_then locks_held_append
            locks_held_no_lock_events acquisitions_append acquisitions_no_lock_events
            locks_held_Locked acquisitions_Locked)
    next
      case (Some st)
      then have f: "fst (acquire_in_order (lock_failure rt) (sort rs) []) = Some st"
        using acq by simp
      from acquire_in_order_failed [OF f] acq
      have "locks_held [] tr = []" "sorted (acquisitions tr)" "\<forall>e \<in> set tr. \<not> is_compilation e"
        by simp_all
      then show ?thesis
        using Ok v None acq Some inputs_loop_no_lock [of rt cs ths 0]
          inputs_loop_no_compilation [of rt cs ths 0]
        by (auto simp: value_mode_inputs_unfold snd_and_then fst_and_then locks_held_append
            locks_held_no_lock_events acquisitions_append acquisitions_no_lock_events)
    qed
  qed
next
  case (Error st)
  then show ?thesis
    using inputs_loop_no_lock [of rt cs ths 0] inputs_loop_no_compilation [of rt cs ths 0]
    by (simp add: value_mode_inputs_unfold snd_and_then fst_and_then
        locks_held_no_lock_events acquisitions_no_lock_events)
next
  case (Undefined u)
  then show ?thesis
    using inputs_loop_no_lock [of rt cs ths 0] inputs_loop_no_compilation [of rt cs ths 0]
    by (simp add: value_mode_inputs_unfold snd_and_then fst_and_then
        locks_held_no_lock_events acquisitions_no_lock_events)
qed

lemma release_locks_held:
  "release_locks (map (\<lambda>i. \<lparr>index = i, lock_held = True\<rparr>) rs) = map Unlocked rs"
  by (induction rs) (simp_all add: release_locks_def)

lemma release_locks_no_compilation: "\<forall>e \<in> set (release_locks infos). \<not> is_compilation e"
  using release_locks_events lock_event_not_compilation by blast

text \<open>
  C9. Every call ends with no lock held, whatever way it ends, and takes its locks in
  ascending order of index. In value mode, with the resource-backed indices the resolver
  gave, the locks held at every call of the Compilation Driver, of the Executable Builder
  and of the client's compilation are exactly those of these indices.
\<close>

theorem locks_around_compilation:
  "locks_held [] (snd (GetCompilerIr rt api stage func_name dev ths)) = [] \<and>
   sorted (acquisitions (snd (GetCompilerIr rt api stage func_name dev ths))) \<and>
   (ths \<noteq> [] \<and>
    GetBodyAndConstantsAndResources rt (device_name dev) func_name = Inr (fbody, cs, rs) \<longrightarrow>
      compiles_under_locks rs [] (snd (GetCompilerIr rt api stage func_name dev ths)))"
proof (cases "stage_support_check dev stage = Ok ()")
  case False
  then show ?thesis by (simp add: GetCompilerIr_trace_unsupported)
next
  case ok: True
  show ?thesis
  proof (cases "GetBodyAndConstantsAndResources rt (device_name dev) func_name")
    case (Inl st)
    then show ?thesis using ok by (simp add: GetCompilerIr_trace_unresolved)
  next
    case (Inr resolved)
    obtain fbody' cs' rs' where r: "resolved = (fbody', cs', rs')" by (cases resolved)
    note res = Inr [unfolded r]
    show ?thesis
    proof (cases "ths = []")
      case True
      let ?tc = "snd (compile_and_export rt api stage func_name dev True fbody' cs' [] [])"
      have tr: "snd (GetCompilerIr rt api stage func_name dev []) = ResolverCalled # ?tc"
        using GetCompilerIr_trace_spec_mode [OF ok res, of api] by simp
      have nl: "\<forall>e \<in> set ?tc. \<not> is_lock_event e" by (rule compile_and_export_no_lock)
      have "locks_held [] (ResolverCalled # ?tc) = []"
        using locks_held_no_lock_events [OF nl, of "[]"] by simp
      moreover have "acquisitions (ResolverCalled # ?tc) = []"
        using acquisitions_no_lock_events [OF nl] by simp
      ultimately show ?thesis using True by (simp add: tr)
    next
      case False
      let ?vm = "value_mode_inputs rt cs' rs' ths"
      note tr = GetCompilerIr_trace_value_mode [OF ok res False, of api]
      note vm = value_mode_inputs_locks [of rt cs' rs' ths]
      have same: "rs = rs'"
        if "GetBodyAndConstantsAndResources rt (device_name dev) func_name = Inr (fbody, cs, rs)"
        using that res by simp
      show ?thesis
      proof (cases "fst ?vm")
        case (Ok v)
        obtain inputs infos where v: "v = (inputs, infos)" by (cases v)
        let ?tc = "snd (compile_and_export rt api stage func_name dev False fbody' cs' inputs infos)"
        have infos: "infos = map (\<lambda>i. \<lparr>index = i, lock_held = True\<rparr>) rs'"
          using value_mode_inputs_Ok [of rt cs' rs' ths inputs infos] Ok v by blast
        have whole: "snd (GetCompilerIr rt api stage func_name dev ths) =
            ResolverCalled # snd ?vm @ ?tc @ map Unlocked rs'"
          using tr Ok v infos by (simp add: release_locks_held)
        have nl: "\<forall>e \<in> set ?tc. \<not> is_lock_event e" by (rule compile_and_export_no_lock)
        have held: "locks_held [] (snd ?vm) = sort rs'" using vm Ok by simp
        have 1: "locks_held [] (snd (GetCompilerIr rt api stage func_name dev ths)) = []"
          by (simp add: whole locks_held_append held locks_held_no_lock_events [OF nl]
              locks_held_Unlocked)
        have 2: "sorted (acquisitions (snd (GetCompilerIr rt api stage func_name dev ths)))"
          using vm by (simp add: whole acquisitions_append acquisitions_no_lock_events [OF nl]
              acquisitions_Unlocked)
        have 3: "compiles_under_locks rs' []
            (snd (GetCompilerIr rt api stage func_name dev ths))"
        proof -
          have a: "compiles_under_locks rs' [] (snd ?vm)"
            using vm by (intro compiles_under_locks_no_compilation) simp
          have b: "compiles_under_locks rs' (sort rs') ?tc"
            by (intro compiles_under_locks_no_lock_events [OF nl]) simp
          have c: "compiles_under_locks rs' held (map Unlocked rs')" for held
            by (intro compiles_under_locks_no_compilation) auto
          show ?thesis
            by (simp add: whole compiles_under_locks_append a b c held
                locks_held_no_lock_events [OF nl])
        qed
        show ?thesis using 1 2 3 same by blast
      next
        case (Error st)
        then have whole: "snd (GetCompilerIr rt api stage func_name dev ths) =
            ResolverCalled # snd ?vm"
          using tr by simp
        have "compiles_under_locks rs' [] (snd ?vm)"
          using vm by (intro compiles_under_locks_no_compilation) simp
        then show ?thesis using vm Error same by (auto simp: whole)
      next
        case (Undefined u)
        then have whole: "snd (GetCompilerIr rt api stage func_name dev ths) =
            ResolverCalled # snd ?vm"
          using tr by simp
        have "compiles_under_locks rs' [] (snd ?vm)"
          using vm by (intro compiles_under_locks_no_compilation) simp
        then show ?thesis using vm Undefined same by (auto simp: whole)
      qed
    qed
  qed
qed

lemma example_value_mode_call:
  "GetCompilerIr example_runtime example_api OPTIMIZED_HLO ''g'' cpu_device [10, 11, 12, 13] =
     (Ok ''HloModule f, optimized'',
      [ResolverCalled, TensorRead 0, CopiedToHost 0, TensorRead 1, TensorRead 2, TensorRead 3,
       VariableInfosResolved, Locked 1, Locked 2, DeviceCompilerLookedUp,
       CompilerOptionsGenerated False, CompileFunctionCalled, BuildExecutableCalled False,
       ClientCompileCalled False, DeviceCompilerUnref, Unlocked 1, Unlocked 2])"
proof -
  have r: "GetBodyAndConstantsAndResources example_runtime (device_name cpu_device) ''g'' =
      Inr (Some \<lparr>fdef = four_args\<rparr>, [0], [1, 2])"
    by (simp add: example_runtime_def)
  have c: "compile_and_export example_runtime example_api OPTIMIZED_HLO ''g'' cpu_device False
      (Some \<lparr>fdef = four_args\<rparr>) [0] [110, 11, 12, 13]
      [\<lparr>index = 1, lock_held = True\<rparr>, \<lparr>index = 2, lock_held = True\<rparr>] =
    (Ok ''HloModule f, optimized'',
     [DeviceCompilerLookedUp, CompilerOptionsGenerated False, CompileFunctionCalled,
      BuildExecutableCalled False, ClientCompileCalled False, DeviceCompilerUnref])"
    by (simp add: compile_and_export_def example_runtime_def cpu_device_def and_then_def
        call_def at_exit_def generate_options_def device_stream_def build_arguments_def
        BuildXlaCompilerArguments_def BuildHLOString_def BuildExecutable_def
        executable_build_options_def example_client_def example_api_def Let_def)
  show ?thesis
    by (simp add: GetCompilerIr_def stage_support_check_def r example_value_mode_inputs c
        and_then_def call_def at_exit_def release_locks_def Let_def)
       (simp add: cpu_device_def)
qed

theorem locks_around_compilation_witness:
  "[10, 11, 12, 13 :: nat] \<noteq> [] \<and>
   GetBodyAndConstantsAndResources example_runtime (device_name cpu_device) ''g'' =
     Inr (Some \<lparr>fdef = four_args\<rparr>, [0], [1, 2]) \<and>
   snd (GetCompilerIr example_runtime example_api OPTIMIZED_HLO ''g'' cpu_device [10, 11, 12, 13]) =
     [ResolverCalled, TensorRead 0, CopiedToHost 0, TensorRead 1, TensorRead 2, TensorRead 3,
      VariableInfosResolved, Locked 1, Locked 2, DeviceCompilerLookedUp,
      CompilerOptionsGenerated False, CompileFunctionCalled, BuildExecutableCalled False,
      ClientCompileCalled False, DeviceCompilerUnref, Unlocked 1, Unlocked 2] \<and>
   locks_held []
     (snd (GetCompilerIr example_runtime example_api OPTIMIZED_HLO ''g'' cpu_device
        [10, 11, 12, 13])) = [] \<and>
   sorted (acquisitions
     (snd (GetCompilerIr example_runtime example_api OPTIMIZED_HLO ''g'' cpu_device
        [10, 11, 12, 13]))) \<and>
   compiles_under_locks [1, 2] []
     (snd (GetCompilerIr example_runtime example_api OPTIMIZED_HLO ''g'' cpu_device
        [10, 11, 12, 13]))"
proof -
  have h: "[10, 11, 12, 13 :: nat] \<noteq> [] \<and>
    GetBodyAndConstantsAndResources example_runtime (device_name cpu_device) ''g'' =
      Inr (Some \<lparr>fdef = four_args\<rparr>, [0], [1, 2])"
    by (simp add: example_runtime_def)
  note t = locks_around_compilation [of example_runtime example_api OPTIMIZED_HLO "''g''"
      cpu_device "[10, 11, 12, 13]" "Some \<lparr>fdef = four_args\<rparr>" "[0]" "[1, 2]"]
  from t h have c: "compiles_under_locks [1, 2] []
     (snd (GetCompilerIr example_runtime example_api OPTIMIZED_HLO ''g'' cpu_device
        [10, 11, 12, 13]))" by blast
  have tr: "snd (GetCompilerIr example_runtime example_api OPTIMIZED_HLO ''g'' cpu_device [10, 11, 12, 13]) =
     [ResolverCalled, TensorRead 0, CopiedToHost 0, TensorRead 1, TensorRead 2, TensorRead 3,
      VariableInfosResolved, Locked 1, Locked 2, DeviceCompilerLookedUp,
      CompilerOptionsGenerated False, CompileFunctionCalled, BuildExecutableCalled False,
      ClientCompileCalled False, DeviceCompilerUnref, Unlocked 1, Unlocked 2]"
    by (simp add: example_value_mode_call)
  show ?thesis
    using h tr c t [THEN conjunct1] t [THEN conjunct2, THEN conjunct1] by simp
qed

section \<open>The arguments the compiler receives in value mode\<close>

lemma compile_and_export_result:
  assumes "LookupOrCreate rt dev (XlaPlatformInfoFromDevice rt dev) = Inr dc"
    and "build_arguments rt spec fbody cs inputs infos = Ok args"
  shows "fst (compile_and_export rt api stage func_name dev spec fbody cs inputs infos) =
     (case CompileFunction rt
             (fst (generate_options rt dc dev (device_stream dev) (XlaPlatformInfoFromDevice rt dev)))
             \<lparr>always_return_tuple = False, alias_resource_update = True\<rparr> func_name args of
        Inl st \<Rightarrow> Error st
      | Inr result \<Rightarrow>
          fst (BuildHLOString api stage result (client rt dc)
                 (fst (generate_options rt dc dev (device_stream dev)
                         (XlaPlatformInfoFromDevice rt dev)))))"
  using assms
  by (simp add: compile_and_export_def Let_def fst_and_then call_def split: sum.splits)

lemma GetCompilerIr_value_mode_result:
  assumes "stage_support_check dev stage = Ok ()"
    and "GetBodyAndConstantsAndResources rt (device_name dev) func_name = Inr (fbody, cs, rs)"
    and "ths \<noteq> []"
    and "fst (value_mode_inputs rt cs rs ths) = Ok (inputs, infos)"
  shows "fst (GetCompilerIr rt api stage func_name dev ths) =
     fst (compile_and_export rt api stage func_name dev False fbody cs inputs infos)"
  using assms by (simp add: GetCompilerIr_def Let_def fst_and_then)

text \<open>
  C8. In value mode, with the constant-foldable indices sorted as the resolver gives them,
  whenever the call reaches the Compilation Driver: there is one input per handle; the
  input at a constant-foldable index is the copy made on the host, every other input is the
  tensor its handle owns; the arguments are those built from the constant-foldable indices,
  these inputs and the variables of the resource-backed indices, of kind Constant at the
  constant-foldable indices, Resource at the resource-backed indices and Parameter
  elsewhere, with the type and the shape of the input; and the call returns what the
  Compilation Driver, called on these arguments, and then the exporter return.
\<close>

theorem value_mode_classification:
  assumes "sorted cs"
    and "ths \<noteq> []"
    and "GetBodyAndConstantsAndResources rt (device_name dev) func_name = Inr (fbody, cs, rs)"
    and "CompileFunctionCalled \<in> set (snd (GetCompilerIr rt api stage func_name dev ths))"
  shows "\<exists>inputs infos dc args.
     length inputs = length ths \<and>
     (\<forall>k < length ths.
        if int k \<in> set cs then CopyToDevice rt (ths ! k) = Inr (inputs ! k)
        else Tensor rt (ths ! k) = Inr (inputs ! k)) \<and>
     index ` set infos = set rs \<and>
     BuildXlaCompilerArguments rt cs inputs infos = Ok args \<and>
     length args = length ths \<and>
     (\<forall>k < length ths.
        kind (args ! k) =
          (if int k \<in> set cs then kConstant
           else if int k \<in> set rs then kResource else kParameter) \<and>
        type (args ! k) = dtype rt (inputs ! k) \<and>
        shape (args ! k) = tensor_shape rt (inputs ! k)) \<and>
     LookupOrCreate rt dev (XlaPlatformInfoFromDevice rt dev) = Inr dc \<and>
     fst (GetCompilerIr rt api stage func_name dev ths) =
       (case CompileFunction rt
               (fst (generate_options rt dc dev (device_stream dev)
                       (XlaPlatformInfoFromDevice rt dev)))
               \<lparr>always_return_tuple = False, alias_resource_update = True\<rparr> func_name args of
          Inl st \<Rightarrow> Error st
        | Inr result \<Rightarrow>
            fst (BuildHLOString api stage result (client rt dc)
                   (fst (generate_options rt dc dev (device_stream dev)
                           (XlaPlatformInfoFromDevice rt dev)))))"
proof -
  let ?tr = "snd (GetCompilerIr rt api stage func_name dev ths)"
  have ok: "stage_support_check dev stage = Ok ()"
  proof (rule ccontr)
    assume "stage_support_check dev stage \<noteq> Ok ()"
    then have "?tr = []" by (rule GetCompilerIr_trace_unsupported)
    then show False using assms(4) by simp
  qed
  let ?vm = "value_mode_inputs rt cs rs ths"
  note tr = GetCompilerIr_trace_value_mode [OF ok assms(3) assms(2), of api]
  have vm_nc: "\<forall>e \<in> set (snd ?vm). \<not> is_compilation e"
    using value_mode_inputs_locks [of rt cs rs ths] by simp
  obtain inputs infos where vm: "fst ?vm = Ok (inputs, infos)"
    and in_tc: "CompileFunctionCalled \<in>
      set (snd (compile_and_export rt api stage func_name dev False fbody cs inputs infos))"
  proof (cases "fst ?vm")
    case (Ok v)
    obtain inputs infos where v: "v = (inputs, infos)" by (cases v)
    have "CompileFunctionCalled \<in> set (snd ?vm) \<or>
       CompileFunctionCalled \<in>
         set (snd (compile_and_export rt api stage func_name dev False fbody cs inputs infos)) \<or>
       CompileFunctionCalled \<in> set (release_locks infos)"
      using assms(4) tr Ok v by auto
    moreover have "CompileFunctionCalled \<notin> set (snd ?vm)" using vm_nc by force
    moreover have "CompileFunctionCalled \<notin> set (release_locks infos)"
      using release_locks_no_compilation [of infos] by force
    ultimately show thesis using that Ok v by blast
  next
    case (Error st)
    then have "CompileFunctionCalled \<in> set (snd ?vm)" using assms(4) tr by auto
    then show thesis using vm_nc by force
  next
    case (Undefined u)
    then have "CompileFunctionCalled \<in> set (snd ?vm)" using assms(4) tr by auto
    then show thesis using vm_nc by force
  qed
  from in_compile_and_export [OF in_tc] obtain dc where
    dc: "LookupOrCreate rt dev (XlaPlatformInfoFromDevice rt dev) = Inr dc" by auto
  from value_mode_inputs_Ok [OF vm] obtain storage where
    il: "fst (inputs_loop rt cs ths 0) = Ok (storage, inputs)"
    and infos: "infos = map (\<lambda>i. \<lparr>index = i, lock_held = True\<rparr>) rs" by blast
  from inputs_loop_inputs [OF assms(1) il]
  have len: "length inputs = length ths"
    and each: "\<forall>k < length ths.
        if int k \<in> set cs then CopyToDevice rt (ths ! k) = Inr (inputs ! k)
        else Tensor rt (ths ! k) = Inr (inputs ! k)"
    by simp_all
  have idx: "index ` set infos = set rs" by (auto simp: infos image_iff)
  define args where "args = value_arguments rt cs infos 0 inputs"
  have built: "BuildXlaCompilerArguments rt cs inputs infos = Ok args"
    by (simp add: BuildXlaCompilerArguments_def args_def)
  then have ba: "build_arguments rt False fbody cs inputs infos = Ok args"
    by (simp add: build_arguments_def)
  have alen: "length args = length ths"
    using value_arguments_kinds [of rt cs infos 0 inputs] len by (simp add: args_def)
  have kinds: "\<forall>k < length ths.
        kind (args ! k) =
          (if int k \<in> set cs then kConstant
           else if int k \<in> set rs then kResource else kParameter) \<and>
        type (args ! k) = dtype rt (inputs ! k) \<and>
        shape (args ! k) = tensor_shape rt (inputs ! k)"
    using value_arguments_kinds [of rt cs infos 0 inputs] len idx by (simp add: args_def)
  have res: "fst (GetCompilerIr rt api stage func_name dev ths) =
       (case CompileFunction rt
               (fst (generate_options rt dc dev (device_stream dev)
                       (XlaPlatformInfoFromDevice rt dev)))
               \<lparr>always_return_tuple = False, alias_resource_update = True\<rparr> func_name args of
          Inl st \<Rightarrow> Error st
        | Inr result \<Rightarrow>
            fst (BuildHLOString api stage result (client rt dc)
                   (fst (generate_options rt dc dev (device_stream dev)
                           (XlaPlatformInfoFromDevice rt dev)))))"
    using GetCompilerIr_value_mode_result [OF ok assms(3) assms(2) vm, of api]
      compile_and_export_result [OF dc ba, of api stage func_name]
    by simp
  show ?thesis using len each idx built alen kinds dc res by blast
qed

theorem value_mode_classification_witness:
  "sorted [0 :: int] \<and> [10, 11, 12, 13 :: nat] \<noteq> [] \<and>
   GetBodyAndConstantsAndResources example_runtime (device_name cpu_device) ''g'' =
     Inr (Some \<lparr>fdef = four_args\<rparr>, [0], [1, 2]) \<and>
   CompileFunctionCalled \<in>
     set (snd (GetCompilerIr example_runtime example_api OPTIMIZED_HLO ''g'' cpu_device
            [10, 11, 12, 13])) \<and>
   (\<exists>inputs infos dc args.
     length inputs = length [10, 11, 12, 13 :: nat] \<and>
     (\<forall>k < length [10, 11, 12, 13 :: nat].
        if int k \<in> set [0] then CopyToDevice example_runtime ([10, 11, 12, 13] ! k) = Inr (inputs ! k)
        else Tensor example_runtime ([10, 11, 12, 13] ! k) = Inr (inputs ! k)) \<and>
     index ` set infos = set [1, 2] \<and>
     BuildXlaCompilerArguments example_runtime [0] inputs infos = Ok args \<and>
     length args = length [10, 11, 12, 13 :: nat] \<and>
     (\<forall>k < length [10, 11, 12, 13 :: nat].
        kind (args ! k) =
          (if int k \<in> set [0] then kConstant
           else if int k \<in> set [1, 2] then kResource else kParameter) \<and>
        type (args ! k) = dtype example_runtime (inputs ! k) \<and>
        shape (args ! k) = tensor_shape example_runtime (inputs ! k)) \<and>
     LookupOrCreate example_runtime cpu_device
       (XlaPlatformInfoFromDevice example_runtime cpu_device) = Inr dc \<and>
     fst (GetCompilerIr example_runtime example_api OPTIMIZED_HLO ''g'' cpu_device
            [10, 11, 12, 13]) =
       (case CompileFunction example_runtime
               (fst (generate_options example_runtime dc cpu_device (device_stream cpu_device)
                       (XlaPlatformInfoFromDevice example_runtime cpu_device)))
               \<lparr>always_return_tuple = False, alias_resource_update = True\<rparr> ''g'' args of
          Inl st \<Rightarrow> Error st
        | Inr result \<Rightarrow>
            fst (BuildHLOString example_api OPTIMIZED_HLO result (client example_runtime dc)
                   (fst (generate_options example_runtime dc cpu_device (device_stream cpu_device)
                           (XlaPlatformInfoFromDevice example_runtime cpu_device)))))) \<and>
   fst (GetCompilerIr example_runtime example_api OPTIMIZED_HLO ''g'' cpu_device
          [10, 11, 12, 13]) = Ok ''HloModule f, optimized''"
proof -
  have s: "sorted [0 :: int]" by simp
  have n: "[10, 11, 12, 13 :: nat] \<noteq> []" by simp
  have r: "GetBodyAndConstantsAndResources example_runtime (device_name cpu_device) ''g'' =
     Inr (Some \<lparr>fdef = four_args\<rparr>, [0], [1, 2])"
    by (simp add: example_runtime_def)
  have c: "CompileFunctionCalled \<in>
     set (snd (GetCompilerIr example_runtime example_api OPTIMIZED_HLO ''g'' cpu_device
            [10, 11, 12, 13]))"
    by (simp add: example_value_mode_call)
  have v: "fst (GetCompilerIr example_runtime example_api OPTIMIZED_HLO ''g'' cpu_device
          [10, 11, 12, 13]) = Ok ''HloModule f, optimized''"
    by (simp add: example_value_mode_call)
  show ?thesis
    using value_mode_classification [OF s n r c] s n r c v by (intro conjI)
qed

end
